theory Spec2Isabelle
  imports Main "HOL-Library.Word"
begin

section \<open>The lock record and the mutex handle (mutex.go)\<close>

text \<open>
  \<^verbatim>\<open>[]byte\<close> is a character list, \<^verbatim>\<open>int64\<close> a 64-bit word (\<open>+\<close> wraps as Go's does,
  \<open>sint\<close> reads the signed value). A \<^verbatim>\<open>time.Time\<close> is the instant it denotes, as a number
  of nanoseconds; \<^verbatim>\<open>UTC()\<close> changes the location a time is printed in and not the instant,
  so it is the identity here. A \<^verbatim>\<open>time.Duration\<close> is an \<^verbatim>\<open>int64\<close> of nanoseconds.
\<close>

type_synonym bytes = string
type_synonym int64 = "64 word"
type_synonym time = int
type_synonym duration = int64

definition time_After :: "time \<Rightarrow> time \<Rightarrow> bool" where
  "time_After t u = (u < t)"

definition time_Add :: "time \<Rightarrow> duration \<Rightarrow> time" where
  "time_Add t d = t + sint d"

text \<open>\<^verbatim>\<open>mutexContent\<close>: \<open>Expires\<close> is a pointer, \<open>None\<close> is \<^verbatim>\<open>nil\<close>.\<close>

record mutexContent =
  ID :: string
  Expires :: "time option"
  Fence :: int64

text \<open>The value of \<^verbatim>\<open>var content mutexContent\<close>.\<close>

definition zero_content :: mutexContent where
  "zero_content = \<lparr>ID = [], Expires = None, Fence = 0\<rparr>"

text \<open>
  \<^verbatim>\<open>Mutex\<close>. The \<^verbatim>\<open>provider\<close> field is the object store the operations below run
  against; the field \<^verbatim>\<open>id\<close> is \<open>id_mu\<close> here (\<open>id\<close> is HOL's identity function).
\<close>

record Mutex =
  bucket :: string
  key :: string
  id_mu :: string
  etag :: string

text \<open>\<^verbatim>\<open>NewMutex\<close>; the fresh \<^verbatim>\<open>uuid.New().String()\<close> is an argument.\<close>

definition NewMutex :: "string \<Rightarrow> string \<Rightarrow> string \<Rightarrow> Mutex" where
  "NewMutex uuid b k = \<lparr>bucket = b, key = k, id_mu = uuid, etag = []\<rparr>"

section \<open>Errors\<close>

text \<open>
  \<open>ErrConflict\<close> is \<^verbatim>\<open>provider.ErrConflict\<close>, \<open>ErrLockHeld\<close> the \<^verbatim>\<open>errLockHeld\<close> of
  \<^verbatim>\<open>TryLock\<close>. \<open>JSONError\<close> carries an error of \<^verbatim>\<open>json.Marshal\<close> or \<^verbatim>\<open>json.Unmarshal\<close>,
  \<open>ProviderError\<close> one of the object store's client, \<open>ContextDone\<close> is \<^verbatim>\<open>ctx.Err()\<close>.
  \<^verbatim>\<open>errors.Is(err, e)\<close> is equality with \<open>e\<close>.
\<close>

datatype error =
    ErrConflict
  | ErrLockHeld
  | JSONError string
  | ProviderError string
  | ContextDone

section \<open>The JSON library\<close>

text \<open>
  \<^verbatim>\<open>encoding/json\<close> is not part of the repository: \<^verbatim>\<open>json.Marshal\<close> and
  \<^verbatim>\<open>json.Unmarshal\<close> at the type \<^verbatim>\<open>mutexContent\<close> are parameters of every operation.
  \<open>Unmarshal cd data c\<close> is \<^verbatim>\<open>json.Unmarshal(data, &c)\<close>, returning the updated \<open>c\<close>.
  Both return \<open>Inl\<close> of a message when they fail.
\<close>

record codec =
  Marshal :: "mutexContent \<Rightarrow> string + bytes"
  Unmarshal :: "bytes \<Rightarrow> mutexContent \<Rightarrow> string + mutexContent"

section \<open>The object store (provider/provider.go, provider/s3/s3.go)\<close>

record object =
  obj_etag :: string
  obj_data :: bytes

type_synonym store = "string \<times> string \<Rightarrow> object option"

text \<open>
  What the world outside the process answers during one call: whether the context is
  already done when \<^verbatim>\<open>retry.Do\<close> looks at it, how the read and the conditional write
  of \<^verbatim>\<open>AtomicUpdateObject\<close> end, and the two readings of \<^verbatim>\<open>time.Now()\<close> in the
  function \<^verbatim>\<open>TryLock\<close> passes to it (mutex.go lines 138 and 143).
  \<open>GetIgnored\<close> is the read error that s3.go does not return (one that is no
  \<^verbatim>\<open>smithy.APIError\<close>): the call goes on as if the object were absent.
\<close>

datatype get_result = GetOK | GetFailed string | GetIgnored

datatype put_result = PutOK string | PutPreconditionFailed | PutFailed string

record call_env =
  ctx_done :: bool
  get_outcome :: get_result
  put_outcome :: put_result
  now_check :: time
  now_expiry :: time

text \<open>
  \<^verbatim>\<open>provider.UpdateObjectFunc\<close>. The functions passed by \<^verbatim>\<open>TryLock\<close> and \<^verbatim>\<open>Unlock\<close> are
  closures; the variable a closure assigns (\<^verbatim>\<open>newFencingToken\<close>) is threaded as \<open>'s\<close>.
\<close>

type_synonym 's UpdateObjectFunc = "string \<Rightarrow> bytes \<Rightarrow> 's \<Rightarrow> (error + bytes) \<times> 's"

text \<open>
  \<^verbatim>\<open>AtomicUpdateObject\<close>: read the object (absent: empty tag, no data), apply \<open>fn\<close>,
  return its error without writing, else write on the condition that the tag is
  unchanged. A successful write replaces the object and yields the new tag.
\<close>

definition read_object :: "call_env \<Rightarrow> store \<Rightarrow> string \<Rightarrow> string \<Rightarrow> string \<times> bytes" where
  "read_object w st bkt k =
     (case get_outcome w of
        GetOK \<Rightarrow> (case st (bkt, k) of
                    Some ob \<Rightarrow> (obj_etag ob, obj_data ob)
                  | None \<Rightarrow> ([], []))
      | _ \<Rightarrow> ([], []))"

definition AtomicUpdateObject ::
  "call_env \<Rightarrow> string \<Rightarrow> string \<Rightarrow> 's UpdateObjectFunc \<Rightarrow> 's \<Rightarrow> store
     \<Rightarrow> (error + string) \<times> 's \<times> store" where
  "AtomicUpdateObject w bkt k fn s st =
     (case get_outcome w of
        GetFailed e \<Rightarrow> (Inl (ProviderError e), s, st)
      | _ \<Rightarrow>
        (case read_object w st bkt k of (currentETag, currentData) \<Rightarrow>
          (case fn currentETag currentData s of
             (Inl err, s') \<Rightarrow> (Inl err, s', st)
           | (Inr newData, s') \<Rightarrow>
               (case put_outcome w of
                  PutOK t \<Rightarrow>
                    (Inr t, s', st((bkt, k) \<mapsto> \<lparr>obj_etag = t, obj_data = newData\<rparr>))
                | PutPreconditionFailed \<Rightarrow> (Inl ErrConflict, s', st)
                | PutFailed e \<Rightarrow> (Inl (ProviderError e), s', st)))))"

section \<open>TryLock\<close>

text \<open>
  Lines 132 to 141 of mutex.go: the record the function works on, or the error it
  returns before changing anything.
\<close>

definition TryLock_read :: "codec \<Rightarrow> call_env \<Rightarrow> bytes \<Rightarrow> error + mutexContent" where
  "TryLock_read cd w currentData =
     (if length currentData > 0 then
        (case Unmarshal cd currentData zero_content of
           Inl e \<Rightarrow> Inl (JSONError e)
         | Inr content \<Rightarrow>
             (if Expires content \<noteq> None \<and> \<not> time_After (now_check w) (the (Expires content))
              then Inl ErrLockHeld
              else Inr content))
      else Inr zero_content)"

text \<open>Lines 143 to 146: the record that is encoded.\<close>

definition TryLock_update :: "call_env \<Rightarrow> Mutex \<Rightarrow> duration \<Rightarrow> mutexContent \<Rightarrow> mutexContent" where
  "TryLock_update w mu expiresIn content =
     content\<lparr>Expires := Some (time_Add (now_expiry w) expiresIn),
             ID := id_mu mu,
             Fence := Fence content + 1\<rparr>"

text \<open>The closure of lines 131 to 151; its state is \<^verbatim>\<open>newFencingToken\<close>.\<close>

definition TryLock_fn :: "codec \<Rightarrow> call_env \<Rightarrow> Mutex \<Rightarrow> duration \<Rightarrow> int64 UpdateObjectFunc" where
  "TryLock_fn cd w mu expiresIn currentETag currentData newFencingToken =
     (case TryLock_read cd w currentData of
        Inl err \<Rightarrow> (Inl err, newFencingToken)
      | Inr content \<Rightarrow>
          (let content' = TryLock_update w mu expiresIn content
           in (case Marshal cd content' of
                 Inl e \<Rightarrow> (Inl (JSONError e), Fence content')
               | Inr newData \<Rightarrow> (Inr newData, Fence content'))))"

text \<open>The result is \<open>((acquired, token, error), handle, store)\<close>.\<close>

definition TryLock ::
  "codec \<Rightarrow> call_env \<Rightarrow> duration \<Rightarrow> Mutex \<Rightarrow> store
     \<Rightarrow> (bool \<times> int64 \<times> error option) \<times> Mutex \<times> store" where
  "TryLock cd w expiresIn mu st =
     (case AtomicUpdateObject w (bucket mu) (key mu) (TryLock_fn cd w mu expiresIn) 0 st of
        (Inl err, newFencingToken, st') \<Rightarrow>
          (if err = ErrLockHeld \<or> err = ErrConflict
           then ((False, - 1, None), mu, st')
           else ((False, - 1, Some err), mu, st'))
      | (Inr newETag, newFencingToken, st') \<Rightarrow>
          ((True, newFencingToken, None), mu\<lparr>etag := newETag\<rparr>, st'))"

section \<open>Unlock\<close>

text \<open>Lines 90 to 99: the record that is encoded, or the decoding error.\<close>

definition Unlock_read :: "codec \<Rightarrow> bytes \<Rightarrow> error + mutexContent" where
  "Unlock_read cd currentData =
     (if length currentData > 0 then
        (case Unmarshal cd currentData zero_content of
           Inl e \<Rightarrow> Inl (JSONError e)
         | Inr content \<Rightarrow> Inr (content\<lparr>ID := [], Expires := None\<rparr>))
      else Inr zero_content)"

text \<open>The closure of lines 85 to 102; it assigns no variable.\<close>

definition Unlock_fn :: "codec \<Rightarrow> Mutex \<Rightarrow> unit UpdateObjectFunc" where
  "Unlock_fn cd mu currentETag currentData u =
     (if currentETag \<noteq> etag mu then (Inl ErrConflict, u)
      else
        (case Unlock_read cd currentData of
           Inl err \<Rightarrow> (Inl err, u)
         | Inr content \<Rightarrow>
             (case Marshal cd content of
                Inl e \<Rightarrow> (Inl (JSONError e), u)
              | Inr newData \<Rightarrow> (Inr newData, u))))"

text \<open>
  The function given to \<^verbatim>\<open>retry.Do\<close> returns \<^verbatim>\<open>nil\<close> or an unrecoverable error, so it
  runs once, unless \<^verbatim>\<open>retry.Do\<close> finds the context done and returns its error at once.
  \<^verbatim>\<open>retry.Unrecoverable\<close> wraps the error it is given; \<^verbatim>\<open>errors.Is\<close> sees through the
  wrapper, and so the wrapped error is the error here. The result is
  \<open>(error, handle, store)\<close>.
\<close>

definition Unlock :: "codec \<Rightarrow> call_env \<Rightarrow> Mutex \<Rightarrow> store \<Rightarrow> error option \<times> Mutex \<times> store" where
  "Unlock cd w mu st =
     (if etag mu \<noteq> [] then
        (if ctx_done w then (Some ContextDone, mu, st)
         else
           (case AtomicUpdateObject w (bucket mu) (key mu) (Unlock_fn cd mu) () st of
              (Inl err, u, st') \<Rightarrow>
                (if err = ErrConflict then (None, mu\<lparr>etag := []\<rparr>, st')
                 else (Some err, mu, st'))
            | (Inr newETag, u, st') \<Rightarrow> (None, mu\<lparr>etag := []\<rparr>, st')))
      else (None, mu, st))"

section \<open>Lock\<close>

text \<open>
  \<^verbatim>\<open>retry.Do\<close> with \<^verbatim>\<open>Attempts(0)\<close> calls \<^verbatim>\<open>TryLock\<close> until it acquires, fails with an
  error, or the context is done. Each attempt has its own answers of the world, and
  other processes may have changed the store since the attempt before (\<open>others\<close>).
  The list is the schedule of the attempts: \<open>None\<close> when the loop is still running at
  its end. \<open>ctx_done\<close> of the first attempt is the look at the context on entry, that of
  a later attempt the wait after the attempt before. The result is
  \<open>((token, error), handle, store)\<close>.
\<close>

fun Lock ::
  "codec \<Rightarrow> (call_env \<times> (store \<Rightarrow> store)) list \<Rightarrow> duration \<Rightarrow> Mutex \<Rightarrow> store
     \<Rightarrow> ((int64 \<times> error option) \<times> Mutex \<times> store) option" where
  "Lock cd [] len mu st = None"
| "Lock cd ((w, others) # ws) len mu st =
     (if ctx_done w then Some ((- 1, Some ContextDone), mu, others st)
      else
        (case TryLock cd w len mu (others st) of
           ((ok, fencingToken, Some err), mu', st') \<Rightarrow> Some ((- 1, Some err), mu', st')
         | ((ok, fencingToken, None), mu', st') \<Rightarrow>
             (if ok then Some ((fencingToken, None), mu', st')
              else Lock cd ws len mu' st')))"

section \<open>An instance of the JSON library\<close>

text \<open>
  A codec to run the operations on: it writes the document \<^verbatim>\<open>json.Marshal\<close> writes for
  the tags of \<^verbatim>\<open>mutexContent\<close> (members \<^verbatim>\<open>id\<close>, \<^verbatim>\<open>expires\<close>, \<^verbatim>\<open>fence\<close> in this order, each
  left out when it is empty, \<^verbatim>\<open>nil\<close> or zero) and reads such documents back. Two things
  are simpler than in Go: only the double quote and the backslash are escaped in a
  string, and the time is written as its number of nanoseconds where Go writes the
  RFC 3339 text. The theorems below hold for every codec; this one gives them inputs.
\<close>

definition dquote :: char where
  "dquote = CHR 0x22"

definition backslash :: char where
  "backslash = CHR 0x5C"

definition is_digit :: "char \<Rightarrow> bool" where
  "is_digit c = (48 \<le> (of_char c :: nat) \<and> (of_char c :: nat) \<le> 57)"

definition digit_char :: "nat \<Rightarrow> char" where
  "digit_char d = char_of (48 + d)"

definition digit_val :: "char \<Rightarrow> nat" where
  "digit_val c = of_char c - 48"

fun show_nat :: "nat \<Rightarrow> string" where
  "show_nat n = (if n < 10 then [digit_char n] else show_nat (n div 10) @ [digit_char (n mod 10)])"

declare show_nat.simps [simp del]

fun read_digits :: "nat \<Rightarrow> string \<Rightarrow> nat \<times> string" where
  "read_digits acc [] = (acc, [])"
| "read_digits acc (c # cs) =
     (if is_digit c then read_digits (10 * acc + digit_val c) cs else (acc, c # cs))"

definition show_int :: "int \<Rightarrow> string" where
  "show_int i = (if i < 0 then CHR ''-'' # show_nat (nat (- i)) else show_nat (nat i))"

definition read_nat :: "string \<Rightarrow> (nat \<times> string) option" where
  "read_nat s = (case s of
                   [] \<Rightarrow> None
                 | c # cs \<Rightarrow> if is_digit c then Some (read_digits 0 s) else None)"

definition read_int :: "string \<Rightarrow> (int \<times> string) option" where
  "read_int s = (case s of
                   [] \<Rightarrow> None
                 | c # cs \<Rightarrow>
                     if c = CHR ''-'' then map_option (\<lambda>(n, r). (- int n, r)) (read_nat cs)
                     else map_option (\<lambda>(n, r). (int n, r)) (read_nat s))"

fun escape :: "string \<Rightarrow> string" where
  "escape [] = []"
| "escape (c # cs) = (if c = dquote \<or> c = backslash then [backslash, c] else [c]) @ escape cs"

fun read_string :: "string \<Rightarrow> (string \<times> string) option" where
  "read_string [] = None"
| "read_string (c # cs) =
     (if c = dquote then Some ([], cs)
      else if c = backslash then
        (case cs of
           [] \<Rightarrow> None
         | d # ds \<Rightarrow> map_option (\<lambda>(v, r). (d # v, r)) (read_string ds))
      else map_option (\<lambda>(v, r). (c # v, r)) (read_string cs))"

definition strip :: "string \<Rightarrow> string \<Rightarrow> string option" where
  "strip p s = (if take (length p) s = p then Some (drop (length p) s) else None)"

definition member_key :: "string \<Rightarrow> string" where
  "member_key name = dquote # name @ [dquote, CHR '':'']"

definition json_members :: "mutexContent \<Rightarrow> string list" where
  "json_members c =
     (if ID c \<noteq> [] then [member_key ''id'' @ dquote # escape (ID c) @ [dquote]] else []) @
     (case Expires c of
        Some t \<Rightarrow> [member_key ''expires'' @ dquote # show_int t @ [dquote]]
      | None \<Rightarrow> []) @
     (if Fence c \<noteq> 0 then [member_key ''fence'' @ show_int (sint (Fence c))] else [])"

fun join_members :: "string list \<Rightarrow> string" where
  "join_members [] = []"
| "join_members [m] = m"
| "join_members (m # ms) = m @ CHR '','' # join_members ms"

definition json_Marshal :: "mutexContent \<Rightarrow> string + bytes" where
  "json_Marshal c = Inr (CHR ''{'' # join_members (json_members c) @ ''}'')"

text \<open>A member is looked for after a comma unless it is the first.\<close>

definition member_start :: "bool \<Rightarrow> string \<Rightarrow> string \<Rightarrow> string option" where
  "member_start first name s = strip ((if first then [] else '','') @ member_key name) s"

definition read_id :: "bool \<times> mutexContent \<times> string \<Rightarrow> (bool \<times> mutexContent \<times> string) option" where
  "read_id = (\<lambda>(first, c, s).
     case member_start first ''id'' s of
       None \<Rightarrow> Some (first, c, s)
     | Some r \<Rightarrow>
         (case strip [dquote] r of
            None \<Rightarrow> None
          | Some r' \<Rightarrow> map_option (\<lambda>(v, r''). (False, c\<lparr>ID := v\<rparr>, r'')) (read_string r')))"

definition read_expires :: "bool \<times> mutexContent \<times> string \<Rightarrow> (bool \<times> mutexContent \<times> string) option" where
  "read_expires = (\<lambda>(first, c, s).
     case member_start first ''expires'' s of
       None \<Rightarrow> Some (first, c, s)
     | Some r \<Rightarrow>
         (case strip [dquote] r of
            None \<Rightarrow> None
          | Some r' \<Rightarrow>
              (case read_int r' of
                 None \<Rightarrow> None
               | Some (t, r'') \<Rightarrow>
                   map_option (\<lambda>r3. (False, c\<lparr>Expires := Some t\<rparr>, r3)) (strip [dquote] r''))))"

definition in_int64 :: "int \<Rightarrow> bool" where
  "in_int64 i = (- (2 ^ 63) \<le> i \<and> i < 2 ^ 63)"

definition read_fence :: "bool \<times> mutexContent \<times> string \<Rightarrow> (bool \<times> mutexContent \<times> string) option" where
  "read_fence = (\<lambda>(first, c, s).
     case member_start first ''fence'' s of
       None \<Rightarrow> Some (first, c, s)
     | Some r \<Rightarrow>
         (case read_int r of
            None \<Rightarrow> None
          | Some (i, r') \<Rightarrow> if in_int64 i then Some (False, c\<lparr>Fence := word_of_int i\<rparr>, r') else None))"

definition json_Unmarshal :: "bytes \<Rightarrow> mutexContent \<Rightarrow> string + mutexContent" where
  "json_Unmarshal data c =
     (case strip ''{'' data of
        None \<Rightarrow> Inl ''invalid character''
      | Some s \<Rightarrow>
          (case Option.bind (Option.bind (read_id (True, c, s)) read_expires) read_fence of
             Some (first, c', r) \<Rightarrow> if r = ''}'' then Inr c' else Inl ''invalid character''
           | None \<Rightarrow> Inl ''invalid character''))"

definition json_codec :: codec where
  "json_codec = \<lparr>Marshal = json_Marshal, Unmarshal = json_Unmarshal\<rparr>"

section \<open>The spec's reading of "held"\<close>

text \<open>
  The spec calls a record held when its holder is not empty and its \<open>expiresAt\<close> is in
  the future. This predicate follows those words; what the code tests is in
  \<open>TryLock_read\<close>.
\<close>

definition held_spec :: "mutexContent \<Rightarrow> time \<Rightarrow> bool" where
  "held_spec c now = (ID c \<noteq> [] \<and> (case Expires c of None \<Rightarrow> False | Some e \<Rightarrow> now < e))"

section \<open>Several handles on one store\<close>

text \<open>
  The handles of the contending processes are numbered. One event is one call of
  \<^verbatim>\<open>TryLock\<close> or \<^verbatim>\<open>Unlock\<close> by one handle, run to its end: the object store
  serialises the calls, and a call that lost a race is one whose write is answered
  with \<open>PutPreconditionFailed\<close>. Two fields only record what happened and are read by
  no operation: \<open>leases\<close>, for each handle the \<open>expiresAt\<close> of its last acquisition as
  long as it has not released it, and \<open>issued\<close>, the fencing tokens returned by the
  successful acquisitions, oldest first.
\<close>

datatype operation = OpTryLock duration | OpUnlock

type_synonym event = "nat \<times> operation \<times> call_env"

record system =
  handles :: "nat \<Rightarrow> Mutex"
  objects :: store
  leases :: "nat \<Rightarrow> time option"
  issued :: "int64 list"

definition init_system :: "(nat \<Rightarrow> Mutex) \<Rightarrow> store \<Rightarrow> system" where
  "init_system hs st = \<lparr>handles = hs, objects = st, leases = (\<lambda>h. None), issued = []\<rparr>"

fun step :: "codec \<Rightarrow> system \<Rightarrow> event \<Rightarrow> system" where
  "step cd s (h, OpTryLock expiresIn, w) =
     (case TryLock cd w expiresIn (handles s h) (objects s) of
        ((ok, token, err), mu', st') \<Rightarrow>
          s\<lparr>handles := (handles s)(h := mu'),
            objects := st',
            leases := (if ok then (leases s)(h := Some (time_Add (now_expiry w) expiresIn))
                       else leases s),
            issued := (if ok then issued s @ [token] else issued s)\<rparr>)"
| "step cd s (h, OpUnlock, w) =
     (case Unlock cd w (handles s h) (objects s) of
        (err, mu', st') \<Rightarrow>
          s\<lparr>handles := (handles s)(h := mu'),
            objects := st',
            leases := (if err = None then (leases s)(h := None) else leases s)\<rparr>)"

definition run :: "codec \<Rightarrow> system \<Rightarrow> event list \<Rightarrow> system" where
  "run cd s evs = foldl (step cd) s evs"

text \<open>A handle holds the lock at the instant \<open>t\<close>: it has acquired, not released, and its lease runs.\<close>

definition holds :: "system \<Rightarrow> nat \<Rightarrow> time \<Rightarrow> bool" where
  "holds s h t =
     (etag (handles s h) \<noteq> [] \<and> (case leases s h of None \<Rightarrow> False | Some e \<Rightarrow> t \<le> e))"

text \<open>The readings of the clock in a list of events, and the tags its writes are answered with.\<close>

fun readings :: "event list \<Rightarrow> time list" where
  "readings [] = []"
| "readings ((h, OpTryLock expiresIn, w) # evs) = now_check w # now_expiry w # readings evs"
| "readings ((h, OpUnlock, w) # evs) = readings evs"

fun put_tags :: "event list \<Rightarrow> string list" where
  "put_tags [] = []"
| "put_tags ((h, opn, w) # evs) =
     (case put_outcome w of PutOK t \<Rightarrow> t # put_tags evs | _ \<Rightarrow> put_tags evs)"

text \<open>The fence of the record stored at a location, when the stored bytes decode.\<close>

definition fence_of :: "codec \<Rightarrow> store \<Rightarrow> string \<times> string \<Rightarrow> int64 option" where
  "fence_of cd st loc =
     (case st loc of
        None \<Rightarrow> Some 0
      | Some ob \<Rightarrow>
          (if length (obj_data ob) > 0 then
             (case Unmarshal cd (obj_data ob) zero_content of
                Inl e \<Rightarrow> None
              | Inr c \<Rightarrow> Some (Fence c))
           else Some 0))"

section \<open>Inputs for the examples\<close>

text \<open>
  Two handles on the same key, a store holding one encoded record under a tag, and
  the answers of a world in which nothing fails, the clock reads \<open>t\<close> and the write is
  given the tag \<open>tag\<close>.
\<close>

definition json_bytes :: "mutexContent \<Rightarrow> bytes" where
  "json_bytes c = (case json_Marshal c of Inr b \<Rightarrow> b | Inl e \<Rightarrow> [])"

definition alice :: Mutex where
  "alice = NewMutex ''alice'' ''bkt'' ''lock''"

definition bob :: Mutex where
  "bob = NewMutex ''bob'' ''bkt'' ''lock''"

definition stored :: "string \<Rightarrow> bytes \<Rightarrow> store" where
  "stored t d = [(''bkt'', ''lock'') \<mapsto> \<lparr>obj_etag = t, obj_data = d\<rparr>]"

definition at_time :: "time \<Rightarrow> string \<Rightarrow> call_env" where
  "at_time t tag =
     \<lparr>ctx_done = False, get_outcome = GetOK, put_outcome = PutOK tag,
      now_check = t, now_expiry = t\<rparr>"


section \<open>What the claims about runs assume\<close>

text \<open>
  The codec reads back what it wrote, as far as the protocol looks at it: bytes it
  encoded are not empty and decode to a record with the same fence and the same expiry.
\<close>

definition reads_back :: "codec \<Rightarrow> bool" where
  "reads_back cd \<longleftrightarrow>
     (\<forall>c d. Marshal cd c = Inr d \<longrightarrow>
        d \<noteq> [] \<and>
        (\<exists>c'. Unmarshal cd d zero_content = Inr c' \<and> Fence c' = Fence c \<and> Expires c' = Expires c))"

text \<open>No call of the run goes on after a failed read as if the object were absent.\<close>

definition honest :: "event list \<Rightarrow> bool" where
  "honest evs = list_all (\<lambda>(h, opn, w). get_outcome w \<noteq> GetIgnored) evs"

text \<open>All handles are bound to the same bucket and key.\<close>

definition same_key :: "system \<Rightarrow> string \<times> string \<Rightarrow> bool" where
  "same_key s loc \<longleftrightarrow> (\<forall>h. (bucket (handles s h), key (handles s h)) = loc)"

text \<open>
  Two runs of two contenders on an empty store. In \<open>handover\<close> the first acquires, the
  second tries while the lease runs, the first releases and the second acquires. In
  \<open>takeover\<close> the first acquires and never releases, and the second acquires after the
  lease has run out.
\<close>

definition contenders :: "nat \<Rightarrow> Mutex" where
  "contenders h = (if h = 0 then alice else bob)"

definition handover :: "event list" where
  "handover =
     [(0, OpTryLock 5, at_time 10 ''v1''),
      (1, OpTryLock 5, at_time 12 ''v2''),
      (0, OpUnlock, at_time 13 ''v3''),
      (1, OpTryLock 5, at_time 14 ''v4'')]"

definition takeover :: "event list" where
  "takeover =
     [(0, OpTryLock 5, at_time 10 ''v1''),
      (1, OpTryLock 5, at_time 20 ''v2'')]"

text \<open>
  The invariant of a run: the store shows the handle \<open>h\<close> as the holder (the stored tag is
  the handle's and the stored expiry is that of its lease), and, for the whole system,
  tags of handles come from writes of the run, no two handles have the same tag, and
  a handle whose lease runs is the one the store shows.
\<close>

definition matches :: "codec \<Rightarrow> system \<Rightarrow> string \<times> string \<Rightarrow> nat \<Rightarrow> bool" where
  "matches cd s loc h \<longleftrightarrow>
     (\<exists>ob c. objects s loc = Some ob \<and> obj_etag ob = etag (handles s h) \<and>
             obj_data ob \<noteq> [] \<and> Unmarshal cd (obj_data ob) zero_content = Inr c \<and>
             Expires c = leases s h)"

definition lease_inv :: "codec \<Rightarrow> string \<times> string \<Rightarrow> event list \<Rightarrow> system \<Rightarrow> bool" where
  "lease_inv cd loc evs s \<longleftrightarrow>
     same_key s loc \<and>
     (\<forall>h. etag (handles s h) \<noteq> [] \<longrightarrow> etag (handles s h) \<in> set (put_tags evs)) \<and>
     (\<forall>h h'. etag (handles s h) \<noteq> [] \<longrightarrow> etag (handles s h) = etag (handles s h') \<longrightarrow> h = h') \<and>
     (\<forall>h t. (\<forall>r \<in> set (readings evs). r \<le> t) \<longrightarrow> holds s h t \<longrightarrow> matches cd s loc h)"


section \<open>The codec instance reads back what it writes\<close>

lemma is_digit_digit_char: "d < 10 \<Longrightarrow> is_digit (digit_char d)"
  by (simp add: is_digit_def digit_char_def)

lemma digit_val_digit_char: "d < 10 \<Longrightarrow> digit_val (digit_char d) = d"
  by (simp add: digit_val_def digit_char_def)

lemma read_digits_show_nat:
  "read_digits acc (show_nat n @ r) = read_digits (acc * 10 ^ length (show_nat n) + n) r"
proof (induction n arbitrary: acc r rule: show_nat.induct)
  case (1 n)
  show ?case
  proof (cases "n < 10")
    case True
    then show ?thesis
      by (simp add: show_nat.simps [of n] is_digit_digit_char digit_val_digit_char mult.commute)
  next
    case False
    have "read_digits acc (show_nat n @ r)
            = read_digits acc (show_nat (n div 10) @ digit_char (n mod 10) # r)"
      using False by (simp add: show_nat.simps [of n])
    also have "\<dots> = read_digits (acc * 10 ^ length (show_nat (n div 10)) + n div 10)
                        (digit_char (n mod 10) # r)"
      by (rule "1.IH" [OF False])
    also have "\<dots> = read_digits (10 * (acc * 10 ^ length (show_nat (n div 10)) + n div 10) + n mod 10) r"
      by (simp add: is_digit_digit_char digit_val_digit_char)
    also have "10 * (acc * 10 ^ length (show_nat (n div 10)) + n div 10) + n mod 10
                 = acc * 10 ^ length (show_nat n) + n"
      using False by (simp add: show_nat.simps [of n] algebra_simps)
    finally show ?thesis .
  qed
qed

lemma show_nat_Cons: "\<exists>c cs. show_nat n = c # cs \<and> is_digit c"
proof (induction n rule: show_nat.induct)
  case (1 n)
  show ?case
  proof (cases "n < 10")
    case True
    then show ?thesis by (simp add: show_nat.simps [of n] is_digit_digit_char)
  next
    case False
    with "1.IH" obtain c cs where "show_nat (n div 10) = c # cs" "is_digit c" by blast
    with False show ?thesis by (simp add: show_nat.simps [of n])
  qed
qed

lemma read_nat_show_nat:
  assumes "\<not> is_digit c"
  shows "read_nat (show_nat n @ c # r) = Some (n, c # r)"
proof -
  obtain d ds where d: "show_nat n = d # ds" "is_digit d"
    using show_nat_Cons by blast
  have "read_digits 0 (show_nat n @ c # r) = (n, c # r)"
    using assms by (simp add: read_digits_show_nat)
  with d show ?thesis by (simp add: read_nat_def)
qed

lemma minus_not_digit: "\<not> is_digit CHR ''-''"
  by (simp add: is_digit_def)

lemma read_int_show_int:
  assumes "\<not> is_digit c"
  shows "read_int (show_int i @ c # r) = Some (i, c # r)"
proof (cases "i < 0")
  case True
  then show ?thesis
    using assms by (simp add: read_int_def show_int_def read_nat_show_nat)
next
  case False
  obtain d ds where d: "show_nat (nat i) = d # ds" "is_digit d"
    using show_nat_Cons by blast
  then have "d \<noteq> CHR ''-''" using minus_not_digit by auto
  moreover have "read_nat (show_nat (nat i) @ c # r) = Some (nat i, c # r)"
    using assms by (rule read_nat_show_nat)
  ultimately show ?thesis
    using False d by (simp add: read_int_def show_int_def)
qed

lemma read_string_escape: "read_string (escape s @ dquote # r) = Some (s, r)"
  by (induction s) (auto simp: dquote_def backslash_def)

lemma strip_append [simp]: "strip p (p @ r) = Some r"
  by (simp add: strip_def)

lemma strip_Cons_same [simp]: "strip (c # p) (c # s) = strip p s"
  by (simp add: strip_def)

lemma strip_Cons_diff [simp]: "c \<noteq> d \<Longrightarrow> strip (c # p) (d # s) = None"
  by (simp add: strip_def)

lemma strip_Nil [simp]: "strip [] s = Some s"
  by (simp add: strip_def)

lemma strip_Cons_Nil [simp]: "strip (c # p) [] = None"
  by (simp add: strip_def)

lemma in_int64_sint: "in_int64 (sint (w :: int64))"
  using sint_range_size [of w] by (simp add: in_int64_def word_size)

lemma not_digit_dquote: "\<not> is_digit dquote"
  by (simp add: is_digit_def dquote_def)

lemma not_digit_brace: "\<not> is_digit CHR ''}''"
  by (simp add: is_digit_def)

lemma json_Marshal_bytes: "json_Marshal c = Inr (json_bytes c)"
  by (simp add: json_bytes_def json_Marshal_def)

lemma json_bytes_not_empty: "json_bytes c \<noteq> []"
  by (simp add: json_bytes_def json_Marshal_def)

lemma json_Unmarshal_bytes: "json_Unmarshal (json_bytes c) zero_content = Inr c"
proof -
  obtain i e f where c: "c = \<lparr>ID = i, Expires = e, Fence = f\<rparr>"
    by (cases c) auto
  note defs = json_bytes_def json_Unmarshal_def json_Marshal_def json_members_def
    member_start_def read_id_def read_expires_def read_fence_def member_key_def zero_content_def
  note rd = read_string_escape read_int_show_int [OF not_digit_dquote]
    read_int_show_int [OF not_digit_brace] in_int64_sint
  note rd' = rd [unfolded dquote_def]
  consider (a) "i = []" "e = None" "f = 0" | (b) "i = []" "e = None" "f \<noteq> 0"
    | (c) "i = []" "e \<noteq> None" "f = 0" | (d) "i = []" "e \<noteq> None" "f \<noteq> 0"
    | (e) "i \<noteq> []" "e = None" "f = 0" | (f) "i \<noteq> []" "e = None" "f \<noteq> 0"
    | (g) "i \<noteq> []" "e \<noteq> None" "f = 0" | (h) "i \<noteq> []" "e \<noteq> None" "f \<noteq> 0"
    by blast
  then show ?thesis
  proof cases
    case a
    with c show ?thesis by (simp add: defs dquote_def)
  next
    case b
    with c show ?thesis by (simp add: defs rd' dquote_def)
  next
    case c
    with \<open>c = _\<close> show ?thesis by (auto simp add: defs rd' dquote_def)
  next
    case d
    with c show ?thesis by (auto simp add: defs rd' dquote_def)
  next
    case e
    with c show ?thesis by (simp add: defs rd' dquote_def)
  next
    case f
    with c show ?thesis by (simp add: defs rd' dquote_def)
  next
    case g
    with c show ?thesis by (auto simp add: defs rd' dquote_def)
  next
    case h
    with c show ?thesis by (auto simp add: defs rd' dquote_def)
  qed
qed

lemma json_codec_simps [simp]:
  "Marshal json_codec = json_Marshal" "Unmarshal json_codec = json_Unmarshal"
  by (simp_all add: json_codec_def)


section \<open>One call\<close>

lemma AtomicUpdateObject_error_keeps_store:
  "AtomicUpdateObject w bkt k fn s st = (Inl err, s', st') \<Longrightarrow> st' = st"
  by (auto simp: AtomicUpdateObject_def split: get_result.splits prod.splits sum.splits put_result.splits)

lemma AtomicUpdateObject_fn_error:
  assumes "get_outcome w \<noteq> GetFailed e" "\<And>e. get_outcome w \<noteq> GetFailed e"
    and "read_object w st bkt k = (tag, d)" and "fn tag d s = (Inl err, s')"
  shows "AtomicUpdateObject w bkt k fn s st = (Inl err, s', st)"
  using assms by (auto simp: AtomicUpdateObject_def split: get_result.splits)

lemma TryLock_fn_state:
  "TryLock_fn cd w mu expiresIn tag d s = (r, s') \<Longrightarrow>
     (case TryLock_read cd w d of
        Inl err \<Rightarrow> r = Inl err \<and> s' = s
      | Inr c \<Rightarrow> s' = Fence c + 1 \<and>
          r = (case Marshal cd (TryLock_update w mu expiresIn c) of
                 Inl e \<Rightarrow> Inl (JSONError e) | Inr b \<Rightarrow> Inr b))"
  by (auto simp: TryLock_fn_def TryLock_update_def Let_def split: sum.splits)

lemma TryLock_read_LockHeld:
  "TryLock_read cd w d = Inl ErrLockHeld \<longleftrightarrow>
     d \<noteq> [] \<and> (\<exists>c e. Unmarshal cd d zero_content = Inr c \<and> Expires c = Some e \<and> now_check w \<le> e)"
  by (auto simp: TryLock_read_def time_After_def split: sum.splits)

lemma TryLock_read_Inr:
  "TryLock_read cd w d = Inr c \<longleftrightarrow>
     (d = [] \<and> c = zero_content) \<or>
     (d \<noteq> [] \<and> Unmarshal cd d zero_content = Inr c \<and>
      (case Expires c of None \<Rightarrow> True | Some e \<Rightarrow> e < now_check w))"
  by (auto simp: TryLock_read_def time_After_def split: sum.splits option.splits)

lemma TryLock_fn_LockHeld:
  "fst (TryLock_fn cd w mu expiresIn tag d s) = Inl ErrLockHeld \<longleftrightarrow>
     TryLock_read cd w d = Inl ErrLockHeld"
  by (auto simp: TryLock_fn_def Let_def split: sum.splits)

lemmas ex_defs = at_time_def stored_def bob_def alice_def NewMutex_def

text \<open>
  Claim C3, as the code has it. The function \<^verbatim>\<open>TryLock\<close> passes to the store returns
  \<open>ErrLockHeld\<close> exactly when the stored bytes are not empty and decode to a record whose
  \<open>Expires\<close> is set and not before the clock (\<open>now \<le> Expires\<close>, the instant of expiry
  included); the holder is not looked at. The store then writes nothing. A record whose
  \<open>Expires\<close> has passed does not stop the caller: with no failure of the codec or the
  store, \<^verbatim>\<open>TryLock\<close> acquires over it, though nothing cleaned it up.
\<close>

theorem TryLock_held_test:
  "(fst (TryLock_fn cd w mu expiresIn tag d s) = Inl ErrLockHeld \<longleftrightarrow>
      d \<noteq> [] \<and> (\<exists>c e. Unmarshal cd d zero_content = Inr c \<and> Expires c = Some e \<and> now_check w \<le> e)) \<and>
   (fst (TryLock_fn cd w mu expiresIn tag d s) = Inl ErrLockHeld \<and>
    read_object w st bkt k = (tag, d) \<and> (\<forall>e. get_outcome w \<noteq> GetFailed e) \<longrightarrow>
      AtomicUpdateObject w bkt k (TryLock_fn cd w mu expiresIn) s st = (Inl ErrLockHeld, s, st)) \<and>
   (get_outcome w = GetOK \<and> st (bucket mu, key mu) = Some ob \<and> obj_data ob \<noteq> [] \<and>
    Unmarshal cd (obj_data ob) zero_content = Inr c \<and> Expires c = Some e \<and> e < now_check w \<and>
    Marshal cd (TryLock_update w mu expiresIn c) = Inr b \<and> put_outcome w = PutOK t \<longrightarrow>
      TryLock cd w expiresIn mu st =
        ((True, Fence c + 1, None), mu\<lparr>etag := t\<rparr>,
         st((bucket mu, key mu) \<mapsto> \<lparr>obj_etag = t, obj_data = b\<rparr>)))"
proof (intro conjI impI)
  show "fst (TryLock_fn cd w mu expiresIn tag d s) = Inl ErrLockHeld \<longleftrightarrow>
      d \<noteq> [] \<and> (\<exists>c e. Unmarshal cd d zero_content = Inr c \<and> Expires c = Some e \<and> now_check w \<le> e)"
    by (simp only: TryLock_fn_LockHeld TryLock_read_LockHeld)
next
  assume a: "fst (TryLock_fn cd w mu expiresIn tag d s) = Inl ErrLockHeld \<and>
    read_object w st bkt k = (tag, d) \<and> (\<forall>e. get_outcome w \<noteq> GetFailed e)"
  then have "TryLock_read cd w d = Inl ErrLockHeld"
    by (simp add: TryLock_fn_LockHeld)
  then have "TryLock_fn cd w mu expiresIn tag d s = (Inl ErrLockHeld, s)"
    by (simp add: TryLock_fn_def)
  with a show "AtomicUpdateObject w bkt k (TryLock_fn cd w mu expiresIn) s st = (Inl ErrLockHeld, s, st)"
    by (auto simp: AtomicUpdateObject_def split: get_result.splits)
next
  assume a: "get_outcome w = GetOK \<and> st (bucket mu, key mu) = Some ob \<and> obj_data ob \<noteq> [] \<and>
    Unmarshal cd (obj_data ob) zero_content = Inr c \<and> Expires c = Some e \<and> e < now_check w \<and>
    Marshal cd (TryLock_update w mu expiresIn c) = Inr b \<and> put_outcome w = PutOK t"
  then have "TryLock_read cd w (obj_data ob) = Inr c"
    by (simp add: TryLock_read_Inr)
  with a have "TryLock_fn cd w mu expiresIn (obj_etag ob) (obj_data ob) 0 = (Inr b, Fence c + 1)"
    by (simp add: TryLock_fn_def Let_def TryLock_update_def)
  with a show "TryLock cd w expiresIn mu st =
        ((True, Fence c + 1, None), mu\<lparr>etag := t\<rparr>,
         st((bucket mu, key mu) \<mapsto> \<lparr>obj_etag = t, obj_data = b\<rparr>))"
    by (simp add: TryLock_def AtomicUpdateObject_def read_object_def)
qed

text \<open>An instance: held at the instant of expiry, and acquired one nanosecond after it.\<close>

theorem TryLock_held_test_witness:
  "fst (TryLock_fn json_codec (at_time 10 ''v2'') bob 5 ''v1''
          (json_bytes \<lparr>ID = ''alice'', Expires = Some 10, Fence = 3\<rparr>) 0) = Inl ErrLockHeld \<and>
   AtomicUpdateObject (at_time 10 ''v2'') ''bkt'' ''lock'' (TryLock_fn json_codec (at_time 10 ''v2'') bob 5) 0
     (stored ''v1'' (json_bytes \<lparr>ID = ''alice'', Expires = Some 10, Fence = 3\<rparr>))
     = (Inl ErrLockHeld, 0, stored ''v1'' (json_bytes \<lparr>ID = ''alice'', Expires = Some 10, Fence = 3\<rparr>)) \<and>
   TryLock json_codec (at_time 10 ''v2'') 5 bob
     (stored ''v1'' (json_bytes \<lparr>ID = ''alice'', Expires = Some 9, Fence = 3\<rparr>)) =
     ((True, 4, None), bob\<lparr>etag := ''v2''\<rparr>,
      stored ''v2'' (json_bytes \<lparr>ID = ''bob'', Expires = Some 15, Fence = 4\<rparr>))"
  using TryLock_held_test
    [where w = "at_time 10 ''v2''" and mu = bob and cd = json_codec and expiresIn = 5
       and tag = "''v1''" and d = "json_bytes \<lparr>ID = ''alice'', Expires = Some 10, Fence = 3\<rparr>"
       and s = 0 and bkt = "''bkt''" and k = "''lock''"
       and st = "stored ''v1'' (json_bytes \<lparr>ID = ''alice'', Expires = Some 10, Fence = 3\<rparr>)"]
    TryLock_held_test
    [where w = "at_time 10 ''v2''" and mu = bob and cd = json_codec and expiresIn = 5
       and st = "stored ''v1'' (json_bytes \<lparr>ID = ''alice'', Expires = Some 9, Fence = 3\<rparr>)"
       and ob = "\<lparr>obj_etag = ''v1'', obj_data = json_bytes \<lparr>ID = ''alice'', Expires = Some 9, Fence = 3\<rparr>\<rparr>"
       and c = "\<lparr>ID = ''alice'', Expires = Some 9, Fence = 3\<rparr>" and e = 9
       and b = "json_bytes \<lparr>ID = ''bob'', Expires = Some 15, Fence = 4\<rparr>" and t = "''v2''"]
  by (simp add: ex_defs json_Unmarshal_bytes json_bytes_not_empty json_Marshal_bytes
      TryLock_update_def time_Add_def read_object_def)

text \<open>
  Claim C3 as the spec words it fails twice: at the instant of expiry, and for a record
  with an expiry and no holder, the function returns \<open>ErrLockHeld\<close> although the record
  is not held in the spec's sense.
\<close>

theorem held_spec_counterexample:
  "fst (TryLock_fn json_codec (at_time 10 ''v2'') bob 5 ''v1''
          (json_bytes \<lparr>ID = ''alice'', Expires = Some 10, Fence = 3\<rparr>) 0) = Inl ErrLockHeld \<and>
   json_Unmarshal (json_bytes \<lparr>ID = ''alice'', Expires = Some 10, Fence = 3\<rparr>) zero_content
     = Inr \<lparr>ID = ''alice'', Expires = Some 10, Fence = 3\<rparr> \<and>
   \<not> held_spec \<lparr>ID = ''alice'', Expires = Some 10, Fence = 3\<rparr> (now_check (at_time 10 ''v2'')) \<and>
   fst (TryLock_fn json_codec (at_time 10 ''v2'') bob 5 ''v1''
          (json_bytes \<lparr>ID = [], Expires = Some 20, Fence = 3\<rparr>) 0) = Inl ErrLockHeld \<and>
   json_Unmarshal (json_bytes \<lparr>ID = [], Expires = Some 20, Fence = 3\<rparr>) zero_content
     = Inr \<lparr>ID = [], Expires = Some 20, Fence = 3\<rparr> \<and>
   \<not> held_spec \<lparr>ID = [], Expires = Some 20, Fence = 3\<rparr> (now_check (at_time 10 ''v2''))"
  by (simp add: TryLock_fn_def TryLock_read_def time_After_def held_spec_def ex_defs
      json_Unmarshal_bytes json_bytes_not_empty)

text \<open>
  Claim C4. When \<^verbatim>\<open>TryLock\<close> acquires, the record it encodes is the record it read
  (the zero record for empty bytes) with the holder set to the handle's identity,
  \<open>Expires\<close> set to the clock plus the lease, and the fence one more; the encoded record
  is what is stored, under the tag the store answered with; the call returns that fence
  and no error, and the handle keeps the new tag.
\<close>

theorem TryLock_success:
  "TryLock cd w expiresIn mu st = ((True, token, err), mu', st') \<Longrightarrow>
     \<exists>c newData t.
       (let d = snd (read_object w st (bucket mu) (key mu))
        in (d = [] \<and> c = zero_content) \<or> (d \<noteq> [] \<and> Unmarshal cd d zero_content = Inr c)) \<and>
       Marshal cd (c\<lparr>ID := id_mu mu,
                    Expires := Some (now_expiry w + sint expiresIn),
                    Fence := Fence c + 1\<rparr>) = Inr newData \<and>
       put_outcome w = PutOK t \<and>
       token = Fence c + 1 \<and> err = None \<and> mu' = mu\<lparr>etag := t\<rparr> \<and>
       st' = st((bucket mu, key mu) \<mapsto> \<lparr>obj_etag = t, obj_data = newData\<rparr>)"
proof -
  assume a: "TryLock cd w expiresIn mu st = ((True, token, err), mu', st')"
  obtain tag d where rd: "read_object w st (bucket mu) (key mu) = (tag, d)"
    by (cases "read_object w st (bucket mu) (key mu)")
  obtain r s where fn: "TryLock_fn cd w mu expiresIn tag d 0 = (r, s)"
    by (cases "TryLock_fn cd w mu expiresIn tag d 0")
  from a rd fn obtain newData t where
    r: "r = Inr newData" and put: "put_outcome w = PutOK t" and
    res: "token = s" "err = None" "mu' = mu\<lparr>etag := t\<rparr>"
      "st' = st((bucket mu, key mu) \<mapsto> \<lparr>obj_etag = t, obj_data = newData\<rparr>)"
    by (auto simp: TryLock_def AtomicUpdateObject_def
        split: get_result.splits sum.splits put_result.splits if_splits)
  from TryLock_fn_state [OF fn] r obtain c where
    c: "TryLock_read cd w d = Inr c" "s = Fence c + 1"
      "Marshal cd (TryLock_update w mu expiresIn c) = Inr newData"
    by (auto split: sum.splits)
  from c(1) have "(d = [] \<and> c = zero_content) \<or> (d \<noteq> [] \<and> Unmarshal cd d zero_content = Inr c)"
    by (auto simp: TryLock_read_Inr)
  moreover have "TryLock_update w mu expiresIn c =
      c\<lparr>ID := id_mu mu, Expires := Some (now_expiry w + sint expiresIn), Fence := Fence c + 1\<rparr>"
    by (simp add: TryLock_update_def time_Add_def)
  ultimately show ?thesis
    using c put res rd by (auto simp: Let_def)
qed

text \<open>An instance: \<open>bob\<close> acquires over a record of \<open>alice\<close> that expired.\<close>

theorem TryLock_success_witness:
  "fst (TryLock json_codec (at_time 10 ''v2'') 5 bob
          (stored ''v1'' (json_bytes \<lparr>ID = ''alice'', Expires = Some 9, Fence = 3\<rparr>))) = (True, 4, None) \<and>
   (\<exists>c newData t.
       (c = \<lparr>ID = ''alice'', Expires = Some 9, Fence = 3\<rparr>) \<and>
       json_Marshal (c\<lparr>ID := ''bob'', Expires := Some 15, Fence := Fence c + 1\<rparr>) = Inr newData \<and>
       t = ''v2'' \<and>
       snd (TryLock json_codec (at_time 10 ''v2'') 5 bob
          (stored ''v1'' (json_bytes \<lparr>ID = ''alice'', Expires = Some 9, Fence = 3\<rparr>))) =
         (bob\<lparr>etag := t\<rparr>, stored t newData))"
proof -
  let ?st = "stored ''v1'' (json_bytes \<lparr>ID = ''alice'', Expires = Some 9, Fence = 3\<rparr>)"
  have h: "TryLock json_codec (at_time 10 ''v2'') 5 bob ?st =
      ((True, 4, None), bob\<lparr>etag := ''v2''\<rparr>,
       stored ''v2'' (json_bytes \<lparr>ID = ''bob'', Expires = Some 15, Fence = 4\<rparr>))"
    by (simp add: TryLock_def AtomicUpdateObject_def read_object_def TryLock_fn_def TryLock_read_def
        TryLock_update_def time_After_def time_Add_def ex_defs
        json_Unmarshal_bytes json_bytes_not_empty json_Marshal_bytes)
  from TryLock_success [OF h] obtain c newData t where
    *: "(let d = snd (read_object (at_time 10 ''v2'') ?st (bucket bob) (key bob))
        in (d = [] \<and> c = zero_content) \<or> (d \<noteq> [] \<and> Unmarshal json_codec d zero_content = Inr c))"
      "Marshal json_codec (c\<lparr>ID := id_mu bob,
                    Expires := Some (now_expiry (at_time 10 ''v2'') + sint (5 :: int64)),
                    Fence := Fence c + 1\<rparr>) = Inr newData"
      "put_outcome (at_time 10 ''v2'') = PutOK t"
      "bob\<lparr>etag := ''v2''\<rparr> = bob\<lparr>etag := t\<rparr>"
      "stored ''v2'' (json_bytes \<lparr>ID = ''bob'', Expires = Some 15, Fence = 4\<rparr>)
         = ?st((bucket bob, key bob) \<mapsto> \<lparr>obj_etag = t, obj_data = newData\<rparr>)"
    by blast
  from *(1) have c: "c = \<lparr>ID = ''alice'', Expires = Some 9, Fence = 3\<rparr>"
    by (simp add: read_object_def ex_defs json_Unmarshal_bytes json_bytes_not_empty)
  from *(3) have t: "t = ''v2''" by (simp add: ex_defs)
  from *(2) have m: "json_Marshal (c\<lparr>ID := ''bob'', Expires := Some 15, Fence := Fence c + 1\<rparr>) = Inr newData"
    by (simp add: ex_defs)
  from *(5) have "stored ''v2'' (json_bytes \<lparr>ID = ''bob'', Expires = Some 15, Fence = 4\<rparr>) = stored t newData"
    by (simp add: ex_defs)
  with h c t m show ?thesis by simp
qed

text \<open>
  Claim C8. When the store holds a record whose lease runs, the function returns
  \<open>ErrLockHeld\<close> with \<^verbatim>\<open>newFencingToken\<close> unassigned, and \<^verbatim>\<open>TryLock\<close> returns not
  acquired, \<open>-1\<close> and no error; the store, and so the stored fence, and the handle are
  as before.
\<close>

theorem TryLock_held_no_change:
  "get_outcome w = GetOK \<Longrightarrow> st (bucket mu, key mu) = Some ob \<Longrightarrow> obj_data ob \<noteq> [] \<Longrightarrow>
   Unmarshal cd (obj_data ob) zero_content = Inr c \<Longrightarrow> Expires c = Some e \<Longrightarrow> now_check w \<le> e \<Longrightarrow>
     TryLock_fn cd w mu expiresIn (obj_etag ob) (obj_data ob) 0 = (Inl ErrLockHeld, 0) \<and>
     TryLock cd w expiresIn mu st = ((False, - 1, None), mu, st)"
proof -
  assume a: "get_outcome w = GetOK" "st (bucket mu, key mu) = Some ob" "obj_data ob \<noteq> []"
    "Unmarshal cd (obj_data ob) zero_content = Inr c" "Expires c = Some e" "now_check w \<le> e"
  then have "TryLock_read cd w (obj_data ob) = Inl ErrLockHeld"
    by (simp add: TryLock_read_LockHeld)
  then have fn: "TryLock_fn cd w mu expiresIn (obj_etag ob) (obj_data ob) 0 = (Inl ErrLockHeld, 0)"
    by (simp add: TryLock_fn_def)
  with a have "TryLock cd w expiresIn mu st = ((False, - 1, None), mu, st)"
    by (simp add: TryLock_def AtomicUpdateObject_def read_object_def)
  with fn show ?thesis by simp
qed

text \<open>An instance: \<open>bob\<close> tries ten nanoseconds before the lease of \<open>alice\<close> ends.\<close>

theorem TryLock_held_no_change_witness:
  "TryLock json_codec (at_time 10 ''v2'') 5 bob
     (stored ''v1'' (json_bytes \<lparr>ID = ''alice'', Expires = Some 20, Fence = 3\<rparr>)) =
   ((False, - 1, None), bob,
    stored ''v1'' (json_bytes \<lparr>ID = ''alice'', Expires = Some 20, Fence = 3\<rparr>))"
  using TryLock_held_no_change
    [where w = "at_time 10 ''v2''" and mu = bob and cd = json_codec and expiresIn = 5
       and st = "stored ''v1'' (json_bytes \<lparr>ID = ''alice'', Expires = Some 20, Fence = 3\<rparr>)"
       and ob = "\<lparr>obj_etag = ''v1'', obj_data = json_bytes \<lparr>ID = ''alice'', Expires = Some 20, Fence = 3\<rparr>\<rparr>"
       and c = "\<lparr>ID = ''alice'', Expires = Some 20, Fence = 3\<rparr>" and e = 20]
  by (simp add: ex_defs json_Unmarshal_bytes json_bytes_not_empty)

text \<open>
  Claim C10. Whenever \<^verbatim>\<open>TryLock\<close> does not acquire, with or without an error, the token
  is \<open>-1\<close> and the handle is unchanged; an error excludes acquiring, and the handle
  changes only when the lock is acquired. Whenever \<^verbatim>\<open>Lock\<close> returns an error, the token
  is \<open>-1\<close>.
\<close>

theorem TryLock_failure_frame:
  "(TryLock cd w expiresIn mu st = ((acquired, token, err), mu', st') \<longrightarrow>
      (\<not> acquired \<longrightarrow> token = - 1 \<and> mu' = mu) \<and>
      (err \<noteq> None \<longrightarrow> \<not> acquired) \<and>
      (mu' \<noteq> mu \<longrightarrow> acquired \<and> err = None)) \<and>
   (Lock cd ws len mu st = Some ((token2, Some e), mu2, st2) \<longrightarrow> token2 = - 1)"
proof
  show "TryLock cd w expiresIn mu st = ((acquired, token, err), mu', st') \<longrightarrow>
      (\<not> acquired \<longrightarrow> token = - 1 \<and> mu' = mu) \<and>
      (err \<noteq> None \<longrightarrow> \<not> acquired) \<and>
      (mu' \<noteq> mu \<longrightarrow> acquired \<and> err = None)"
    by (auto simp: TryLock_def split: prod.splits sum.splits if_splits)
  show "Lock cd ws len mu st = Some ((token2, Some e), mu2, st2) \<longrightarrow> token2 = - 1"
  proof (induction ws arbitrary: mu st)
    case Nil
    show ?case by simp
  next
    case (Cons a ws)
    obtain w others where a: "a = (w, others)" by (cases a)
    show ?case
      using Cons.IH
      by (auto simp: a split: if_splits prod.splits option.splits)
  qed
qed

text \<open>Instances: a lock that is held, a stored record that does not decode, and \<^verbatim>\<open>Lock\<close> on it.\<close>

theorem TryLock_failure_frame_witness:
  "TryLock json_codec (at_time 10 ''v2'') 5 bob
     (stored ''v1'' (json_bytes \<lparr>ID = ''alice'', Expires = Some 20, Fence = 3\<rparr>)) =
     ((False, - 1, None), bob,
      stored ''v1'' (json_bytes \<lparr>ID = ''alice'', Expires = Some 20, Fence = 3\<rparr>)) \<and>
   TryLock json_codec (at_time 10 ''v2'') 5 bob (stored ''v1'' ''nonsense'') =
     ((False, - 1, Some (JSONError ''invalid character'')), bob, stored ''v1'' ''nonsense'') \<and>
   Lock json_codec [(at_time 10 ''v2'', \<lambda>st. st)] 5 bob (stored ''v1'' ''nonsense'') =
     Some ((- 1, Some (JSONError ''invalid character'')), bob, stored ''v1'' ''nonsense'')"
proof -
  let ?held = "stored ''v1'' (json_bytes \<lparr>ID = ''alice'', Expires = Some 20, Fence = 3\<rparr>)"
  let ?bad = "stored ''v1'' ''nonsense''"
  obtain a1 t1 e1 m1 s1 where r1:
    "TryLock json_codec (at_time 10 ''v2'') 5 bob ?held = ((a1, t1, e1), m1, s1)"
    by (metis prod_cases3)
  have a1: "\<not> a1" "e1 = None" "s1 = ?held"
    using r1
    by (simp_all add: TryLock_def AtomicUpdateObject_def read_object_def TryLock_fn_def
        TryLock_read_def time_After_def ex_defs json_Unmarshal_bytes json_bytes_not_empty)
  obtain a2 t2 e2 m2 s2 where r2:
    "TryLock json_codec (at_time 10 ''v2'') 5 bob ?bad = ((a2, t2, e2), m2, s2)"
    by (metis prod_cases3)
  have a2: "\<not> a2" "e2 = Some (JSONError ''invalid character'')" "s2 = ?bad"
    using r2
    by (simp_all add: TryLock_def AtomicUpdateObject_def read_object_def TryLock_fn_def
        TryLock_read_def ex_defs json_Unmarshal_def)
  obtain r3 where r3: "Lock json_codec [(at_time 10 ''v2'', \<lambda>st. st)] 5 bob ?bad = r3"
    by simp
  have l3: "\<exists>tok. r3 = Some ((tok, Some (JSONError ''invalid character'')), bob, ?bad)"
    using r3 r2 a2
      TryLock_failure_frame [where cd = json_codec and w = "at_time 10 ''v2''" and expiresIn = 5
        and mu = bob and st = ?bad and acquired = a2 and token = t2 and err = e2
        and mu' = m2 and st' = s2]
    by (auto simp: at_time_def)
  then obtain tok where tok: "r3 = Some ((tok, Some (JSONError ''invalid character'')), bob, ?bad)"
    by blast
  have "tok = - 1"
    using TryLock_failure_frame [where cd = json_codec and ws = "[(at_time 10 ''v2'', \<lambda>st. st)]"
        and len = 5 and mu = bob and st = ?bad and ?token2.0 = tok
        and e = "JSONError ''invalid character''" and ?mu2.0 = bob and ?st2.0 = ?bad]
      r3 tok by simp
  moreover have "t1 = - 1 \<and> m1 = bob"
    using TryLock_failure_frame [where cd = json_codec and w = "at_time 10 ''v2''"
        and expiresIn = 5 and mu = bob and st = ?held and acquired = a1 and token = t1
        and err = e1 and mu' = m1 and st' = s1] r1 a1 by simp
  moreover have "t2 = - 1 \<and> m2 = bob"
    using TryLock_failure_frame [where cd = json_codec and w = "at_time 10 ''v2''"
        and expiresIn = 5 and mu = bob and st = ?bad and acquired = a2 and token = t2
        and err = e2 and mu' = m2 and st' = s2] r2 a2 by simp
  ultimately show ?thesis
    using r1 r2 r3 a1 a2 tok by simp
qed

text \<open>
  Claim C5. \<^verbatim>\<open>TryLock\<close> returns not acquired and no error exactly when the call of the
  store ends with \<open>ErrConflict\<close> or \<open>ErrLockHeld\<close>; it returns an error exactly when the
  call ends with any other error, and then that error. \<open>ErrLockHeld\<close> comes from the test
  of the stored record only, \<open>ErrConflict\<close> from a refused conditional write only, and
  stored bytes that do not decode give the decoder's error.
\<close>

theorem TryLock_outcome:
  "AtomicUpdateObject w (bucket mu) (key mu) (TryLock_fn cd w mu expiresIn) 0 st = (r, tok, st1) \<Longrightarrow>
   TryLock cd w expiresIn mu st = ((acquired, token, err), mu', st') \<Longrightarrow>
     ((\<not> acquired \<and> err = None) \<longleftrightarrow> (r = Inl ErrConflict \<or> r = Inl ErrLockHeld)) \<and>
     (\<forall>e. err = Some e \<longleftrightarrow> (r = Inl e \<and> e \<noteq> ErrConflict \<and> e \<noteq> ErrLockHeld)) \<and>
     (r = Inl ErrLockHeld \<longleftrightarrow>
        (\<forall>e. get_outcome w \<noteq> GetFailed e) \<and>
        TryLock_read cd w (snd (read_object w st (bucket mu) (key mu))) = Inl ErrLockHeld) \<and>
     (r = Inl ErrConflict \<longleftrightarrow>
        (\<forall>e. get_outcome w \<noteq> GetFailed e) \<and>
        (\<exists>c b. TryLock_read cd w (snd (read_object w st (bucket mu) (key mu))) = Inr c \<and>
               Marshal cd (TryLock_update w mu expiresIn c) = Inr b) \<and>
        put_outcome w = PutPreconditionFailed) \<and>
     (\<forall>m. (\<forall>e. get_outcome w \<noteq> GetFailed e) \<and>
          snd (read_object w st (bucket mu) (key mu)) \<noteq> [] \<and>
          Unmarshal cd (snd (read_object w st (bucket mu) (key mu))) zero_content = Inl m \<longrightarrow>
            \<not> acquired \<and> err = Some (JSONError m))"
proof -
  assume R: "AtomicUpdateObject w (bucket mu) (key mu) (TryLock_fn cd w mu expiresIn) 0 st = (r, tok, st1)"
    and T: "TryLock cd w expiresIn mu st = ((acquired, token, err), mu', st')"
  obtain tag d where rd: "read_object w st (bucket mu) (key mu) = (tag, d)"
    by (cases "read_object w st (bucket mu) (key mu)")
  obtain q s where fn: "TryLock_fn cd w mu expiresIn tag d 0 = (q, s)"
    by (cases "TryLock_fn cd w mu expiresIn tag d 0")
  note st = TryLock_fn_state [OF fn]
  have 1: "(\<not> acquired \<and> err = None) \<longleftrightarrow> (r = Inl ErrConflict \<or> r = Inl ErrLockHeld)"
    using R T by (auto simp: TryLock_def split: sum.splits if_splits)
  have 2: "\<forall>e. err = Some e \<longleftrightarrow> (r = Inl e \<and> e \<noteq> ErrConflict \<and> e \<noteq> ErrLockHeld)"
    using R T by (auto simp: TryLock_def split: sum.splits if_splits)
  have 3: "r = Inl ErrLockHeld \<longleftrightarrow>
        (\<forall>e. get_outcome w \<noteq> GetFailed e) \<and> TryLock_read cd w d = Inl ErrLockHeld"
    using R rd fn st
    by (auto simp: AtomicUpdateObject_def
        split: get_result.splits sum.splits put_result.splits)
  have 4: "r = Inl ErrConflict \<longleftrightarrow>
        (\<forall>e. get_outcome w \<noteq> GetFailed e) \<and>
        (\<exists>c b. TryLock_read cd w d = Inr c \<and> Marshal cd (TryLock_update w mu expiresIn c) = Inr b) \<and>
        put_outcome w = PutPreconditionFailed"
  proof -
    have no_conflict: "TryLock_read cd w d \<noteq> Inl ErrConflict"
      by (auto simp: TryLock_read_def split: sum.splits)
    show ?thesis
      using R rd fn st no_conflict
      by (auto simp: AtomicUpdateObject_def
          split: get_result.splits sum.splits put_result.splits)
  qed
  have 5: "\<forall>m. (\<forall>e. get_outcome w \<noteq> GetFailed e) \<and> d \<noteq> [] \<and>
          Unmarshal cd d zero_content = Inl m \<longrightarrow> \<not> acquired \<and> err = Some (JSONError m)"
  proof (intro allI impI)
    fix m
    assume a: "(\<forall>e. get_outcome w \<noteq> GetFailed e) \<and> d \<noteq> [] \<and> Unmarshal cd d zero_content = Inl m"
    then have "TryLock_read cd w d = Inl (JSONError m)"
      by (simp add: TryLock_read_def)
    then have "TryLock_fn cd w mu expiresIn tag d 0 = (Inl (JSONError m), 0)"
      by (simp add: TryLock_fn_def)
    with a rd have "r = Inl (JSONError m)"
      using R by (auto simp: AtomicUpdateObject_def split: get_result.splits)
    with 1 2 show "\<not> acquired \<and> err = Some (JSONError m)"
      using R T by (auto simp: TryLock_def)
  qed
  from 1 2 3 4 5 rd show ?thesis by simp
qed

text \<open>Instances: a write that lost the race, and a stored record that does not decode.\<close>

theorem TryLock_outcome_witness:
  "AtomicUpdateObject ((at_time 10 ''v2'')\<lparr>put_outcome := PutPreconditionFailed\<rparr>) ''bkt'' ''lock''
     (TryLock_fn json_codec ((at_time 10 ''v2'')\<lparr>put_outcome := PutPreconditionFailed\<rparr>) bob 5) 0
     (stored ''v1'' (json_bytes \<lparr>ID = ''alice'', Expires = Some 9, Fence = 3\<rparr>)) =
     (Inl ErrConflict, 4, stored ''v1'' (json_bytes \<lparr>ID = ''alice'', Expires = Some 9, Fence = 3\<rparr>)) \<and>
   TryLock json_codec ((at_time 10 ''v2'')\<lparr>put_outcome := PutPreconditionFailed\<rparr>) 5 bob
     (stored ''v1'' (json_bytes \<lparr>ID = ''alice'', Expires = Some 9, Fence = 3\<rparr>)) =
     ((False, - 1, None), bob, stored ''v1'' (json_bytes \<lparr>ID = ''alice'', Expires = Some 9, Fence = 3\<rparr>)) \<and>
   AtomicUpdateObject (at_time 10 ''v2'') ''bkt'' ''lock''
     (TryLock_fn json_codec (at_time 10 ''v2'') bob 5) 0 (stored ''v1'' ''nonsense'') =
     (Inl (JSONError ''invalid character''), 0, stored ''v1'' ''nonsense'') \<and>
   TryLock json_codec (at_time 10 ''v2'') 5 bob (stored ''v1'' ''nonsense'') =
     ((False, - 1, Some (JSONError ''invalid character'')), bob, stored ''v1'' ''nonsense'')"
proof -
  let ?w = "(at_time 10 ''v2'')\<lparr>put_outcome := PutPreconditionFailed\<rparr>"
  let ?st = "stored ''v1'' (json_bytes \<lparr>ID = ''alice'', Expires = Some 9, Fence = 3\<rparr>)"
  let ?bad = "stored ''v1'' ''nonsense''"
  note ev = AtomicUpdateObject_def read_object_def TryLock_fn_def TryLock_read_def
    TryLock_update_def time_After_def time_Add_def ex_defs
    json_Unmarshal_bytes json_bytes_not_empty json_Marshal_bytes
  have R1: "AtomicUpdateObject ?w (bucket bob) (key bob) (TryLock_fn json_codec ?w bob 5) 0 ?st
      = (Inl ErrConflict, 4, ?st)"
    by (simp add: ev)
  obtain a1 t1 e1 m1 s1 where T1: "TryLock json_codec ?w 5 bob ?st = ((a1, t1, e1), m1, s1)"
    by (metis prod_cases3)
  have R2: "AtomicUpdateObject (at_time 10 ''v2'') (bucket bob) (key bob)
      (TryLock_fn json_codec (at_time 10 ''v2'') bob 5) 0 ?bad
      = (Inl (JSONError ''invalid character''), 0, ?bad)"
    by (simp add: ev json_Unmarshal_def)
  obtain a2 t2 e2 m2 s2 where
    T2: "TryLock json_codec (at_time 10 ''v2'') 5 bob ?bad = ((a2, t2, e2), m2, s2)"
    by (metis prod_cases3)
  have "\<not> a1 \<and> e1 = None"
    using TryLock_outcome [OF R1 T1] by simp
  moreover have "e2 = Some (JSONError ''invalid character'')"
    using TryLock_outcome [OF R2 T2] by simp
  moreover have "t1 = - 1 \<and> m1 = bob \<and> s1 = ?st"
    using T1 R1 by (simp add: TryLock_def)
  moreover have "\<not> a2 \<and> t2 = - 1 \<and> m2 = bob \<and> s2 = ?bad"
    using T2 R2 by (simp add: TryLock_def)
  ultimately show ?thesis
    using R1 R2 T1 T2 by (simp add: ex_defs)
qed

text \<open>
  Claim C6. When the tag read differs from the handle's tag, the function \<^verbatim>\<open>Unlock\<close>
  passes to the store returns \<open>ErrConflict\<close> and the store writes nothing. When the tags
  agree and the function returns bytes, they encode the record read with the holder
  and \<open>Expires\<close> cleared and the fence as it was read.
\<close>

theorem Unlock_fn_effect:
  "(currentETag \<noteq> etag mu \<longrightarrow>
      Unlock_fn cd mu currentETag currentData u = (Inl ErrConflict, u)) \<and>
   (currentETag \<noteq> etag mu \<and> read_object w st bkt k = (currentETag, currentData) \<and>
    (\<forall>e. get_outcome w \<noteq> GetFailed e) \<longrightarrow>
      AtomicUpdateObject w bkt k (Unlock_fn cd mu) u st = (Inl ErrConflict, u, st)) \<and>
   (currentETag = etag mu \<and> Unlock_fn cd mu currentETag currentData u = (Inr newData, u') \<longrightarrow>
      (\<exists>c. ((currentData = [] \<and> c = zero_content) \<or>
            (currentData \<noteq> [] \<and> Unmarshal cd currentData zero_content = Inr c)) \<and>
           Marshal cd (c\<lparr>ID := [], Expires := None\<rparr>) = Inr newData \<and>
           Fence (c\<lparr>ID := [], Expires := None\<rparr>) = Fence c))"
proof (intro conjI impI)
  show "Unlock_fn cd mu currentETag currentData u = (Inl ErrConflict, u)"
    if "currentETag \<noteq> etag mu"
    using that by (simp add: Unlock_fn_def)
  show "AtomicUpdateObject w bkt k (Unlock_fn cd mu) u st = (Inl ErrConflict, u, st)"
    if "currentETag \<noteq> etag mu \<and> read_object w st bkt k = (currentETag, currentData) \<and>
      (\<forall>e. get_outcome w \<noteq> GetFailed e)"
    using that
    by (auto simp: AtomicUpdateObject_def Unlock_fn_def split: get_result.splits)
  show "\<exists>c. ((currentData = [] \<and> c = zero_content) \<or>
            (currentData \<noteq> [] \<and> Unmarshal cd currentData zero_content = Inr c)) \<and>
           Marshal cd (c\<lparr>ID := [], Expires := None\<rparr>) = Inr newData \<and>
           Fence (c\<lparr>ID := [], Expires := None\<rparr>) = Fence c"
    if "currentETag = etag mu \<and> Unlock_fn cd mu currentETag currentData u = (Inr newData, u')"
    using that
    by (auto simp: Unlock_fn_def Unlock_read_def zero_content_def split: sum.splits if_splits)
qed

text \<open>Instances: the lock has passed to \<open>bob\<close>; \<open>alice\<close> releases the lock she holds.\<close>

theorem Unlock_fn_effect_witness:
  "Unlock_fn json_codec (alice\<lparr>etag := ''v1''\<rparr>) ''v2''
     (json_bytes \<lparr>ID = ''bob'', Expires = Some 20, Fence = 4\<rparr>) () = (Inl ErrConflict, ()) \<and>
   AtomicUpdateObject (at_time 10 ''v3'') ''bkt'' ''lock'' (Unlock_fn json_codec (alice\<lparr>etag := ''v1''\<rparr>)) ()
     (stored ''v2'' (json_bytes \<lparr>ID = ''bob'', Expires = Some 20, Fence = 4\<rparr>)) =
     (Inl ErrConflict, (), stored ''v2'' (json_bytes \<lparr>ID = ''bob'', Expires = Some 20, Fence = 4\<rparr>)) \<and>
   Unlock_fn json_codec (alice\<lparr>etag := ''v1''\<rparr>) ''v1''
     (json_bytes \<lparr>ID = ''alice'', Expires = Some 20, Fence = 3\<rparr>) () =
     (Inr (json_bytes \<lparr>ID = [], Expires = None, Fence = 3\<rparr>), ())"
proof -
  let ?mu = "alice\<lparr>etag := ''v1''\<rparr>"
  let ?d2 = "json_bytes \<lparr>ID = ''bob'', Expires = Some 20, Fence = 4\<rparr>"
  let ?d1 = "json_bytes \<lparr>ID = ''alice'', Expires = Some 20, Fence = 3\<rparr>"
  note th = Unlock_fn_effect [where cd = json_codec and mu = ?mu and u = "()"]
  have 1: "Unlock_fn json_codec ?mu ''v2'' ?d2 () = (Inl ErrConflict, ())"
    using th [where currentETag = "''v2''" and currentData = ?d2]
    by (simp add: ex_defs)
  have 2: "AtomicUpdateObject (at_time 10 ''v3'') ''bkt'' ''lock'' (Unlock_fn json_codec ?mu) ()
      (stored ''v2'' ?d2) = (Inl ErrConflict, (), stored ''v2'' ?d2)"
    using th [where currentETag = "''v2''" and currentData = ?d2 and w = "at_time 10 ''v3''"
        and st = "stored ''v2'' ?d2" and bkt = "''bkt''" and k = "''lock''"]
    by (simp add: ex_defs read_object_def)
  obtain q where q: "Unlock_fn json_codec ?mu ''v1'' ?d1 () = (q, ())"
    by (cases "Unlock_fn json_codec ?mu ''v1'' ?d1 ()") simp
  have q': "q = Inr (json_bytes \<lparr>ID = [], Expires = None, Fence = 3\<rparr>)"
    using q by (simp add: Unlock_fn_def Unlock_read_def ex_defs
        json_Unmarshal_bytes json_bytes_not_empty json_Marshal_bytes)
  have 3: "Unlock_fn json_codec ?mu ''v1'' ?d1 () =
      (Inr (json_bytes \<lparr>ID = [], Expires = None, Fence = 3\<rparr>), ())"
    using th [where currentETag = "''v1''" and currentData = ?d1
        and newData = "json_bytes \<lparr>ID = [], Expires = None, Fence = 3\<rparr>" and u' = "()"]
      q q' by simp
  from 1 2 3 show ?thesis by simp
qed

text \<open>
  Claim C7. With an empty tag \<^verbatim>\<open>Unlock\<close> returns no error and changes neither the handle
  nor the store, whatever the world would answer. Otherwise, unless the context is
  done, \<open>ErrConflict\<close> from the store is returned as no error and the tag is cleared,
  any other error is returned and the tag stays, and after a write the tag is cleared.
\<close>

theorem Unlock_outcome:
  "(etag mu = [] \<longrightarrow> Unlock cd w mu st = (None, mu, st)) \<and>
   (etag mu \<noteq> [] \<and> \<not> ctx_done w \<and>
    AtomicUpdateObject w (bucket mu) (key mu) (Unlock_fn cd mu) () st = (r, u, st') \<longrightarrow>
      (r = Inl ErrConflict \<longrightarrow> Unlock cd w mu st = (None, mu\<lparr>etag := []\<rparr>, st)) \<and>
      (\<forall>e. r = Inl e \<and> e \<noteq> ErrConflict \<longrightarrow> Unlock cd w mu st = (Some e, mu, st)) \<and>
      (\<forall>t. r = Inr t \<longrightarrow> Unlock cd w mu st = (None, mu\<lparr>etag := []\<rparr>, st'))) \<and>
   (etag mu \<noteq> [] \<and> ctx_done w \<longrightarrow> Unlock cd w mu st = (Some ContextDone, mu, st))"
proof (intro conjI impI allI)
  show "Unlock cd w mu st = (None, mu, st)" if "etag mu = []"
    using that by (simp add: Unlock_def)
  show "Unlock cd w mu st = (Some ContextDone, mu, st)" if "etag mu \<noteq> [] \<and> ctx_done w"
    using that by (simp add: Unlock_def)
next
  assume a: "etag mu \<noteq> [] \<and> \<not> ctx_done w \<and>
    AtomicUpdateObject w (bucket mu) (key mu) (Unlock_fn cd mu) () st = (r, u, st')"
  show "Unlock cd w mu st = (None, mu\<lparr>etag := []\<rparr>, st)" if "r = Inl ErrConflict"
    using a that AtomicUpdateObject_error_keeps_store [of w "bucket mu" "key mu" "Unlock_fn cd mu" "()" st ErrConflict u st']
    by (simp add: Unlock_def)
  show "Unlock cd w mu st = (Some e, mu, st)" if "r = Inl e \<and> e \<noteq> ErrConflict" for e
    using a that AtomicUpdateObject_error_keeps_store [of w "bucket mu" "key mu" "Unlock_fn cd mu" "()" st e u st']
    by (simp add: Unlock_def)
  show "Unlock cd w mu st = (None, mu\<lparr>etag := []\<rparr>, st')" if "r = Inr t" for t
    using a that by (simp add: Unlock_def)
qed

text \<open>Instances: nothing to release, a lock that has passed on, bytes that do not decode, a release.\<close>

theorem Unlock_outcome_witness:
  "Unlock json_codec (at_time 10 ''v2'') alice
     (stored ''v1'' (json_bytes \<lparr>ID = ''bob'', Expires = Some 20, Fence = 4\<rparr>)) =
     (None, alice, stored ''v1'' (json_bytes \<lparr>ID = ''bob'', Expires = Some 20, Fence = 4\<rparr>)) \<and>
   Unlock json_codec (at_time 10 ''v3'') (alice\<lparr>etag := ''v1''\<rparr>)
     (stored ''v2'' (json_bytes \<lparr>ID = ''bob'', Expires = Some 20, Fence = 4\<rparr>)) =
     (None, alice, stored ''v2'' (json_bytes \<lparr>ID = ''bob'', Expires = Some 20, Fence = 4\<rparr>)) \<and>
   Unlock json_codec (at_time 10 ''v3'') (alice\<lparr>etag := ''v1''\<rparr>) (stored ''v1'' ''nonsense'') =
     (Some (JSONError ''invalid character''), alice\<lparr>etag := ''v1''\<rparr>, stored ''v1'' ''nonsense'') \<and>
   Unlock json_codec (at_time 10 ''v2'') (alice\<lparr>etag := ''v1''\<rparr>)
     (stored ''v1'' (json_bytes \<lparr>ID = ''alice'', Expires = Some 20, Fence = 3\<rparr>)) =
     (None, alice, stored ''v2'' (json_bytes \<lparr>ID = [], Expires = None, Fence = 3\<rparr>))"
proof -
  let ?mu = "alice\<lparr>etag := ''v1''\<rparr>"
  let ?s2 = "stored ''v2'' (json_bytes \<lparr>ID = ''bob'', Expires = Some 20, Fence = 4\<rparr>)"
  let ?s1 = "stored ''v1'' (json_bytes \<lparr>ID = ''alice'', Expires = Some 20, Fence = 3\<rparr>)"
  let ?bad = "stored ''v1'' ''nonsense''"
  note ev = AtomicUpdateObject_def read_object_def Unlock_fn_def Unlock_read_def ex_defs
    json_Unmarshal_bytes json_bytes_not_empty json_Marshal_bytes
  have 1: "Unlock json_codec (at_time 10 ''v2'') alice
      (stored ''v1'' (json_bytes \<lparr>ID = ''bob'', Expires = Some 20, Fence = 4\<rparr>)) =
      (None, alice, stored ''v1'' (json_bytes \<lparr>ID = ''bob'', Expires = Some 20, Fence = 4\<rparr>))"
    using Unlock_outcome [where mu = alice and cd = json_codec and w = "at_time 10 ''v2''"
        and st = "stored ''v1'' (json_bytes \<lparr>ID = ''bob'', Expires = Some 20, Fence = 4\<rparr>)"]
    by (simp add: ex_defs)
  have R2: "AtomicUpdateObject (at_time 10 ''v3'') (bucket ?mu) (key ?mu) (Unlock_fn json_codec ?mu) () ?s2
      = (Inl ErrConflict, (), ?s2)"
    by (simp add: ev)
  have 2: "Unlock json_codec (at_time 10 ''v3'') ?mu ?s2 = (None, ?mu\<lparr>etag := []\<rparr>, ?s2)"
    using Unlock_outcome [where mu = ?mu and cd = json_codec and w = "at_time 10 ''v3''"
        and st = ?s2 and r = "Inl ErrConflict" and u = "()" and st' = ?s2] R2
    by (simp add: ex_defs)
  have R3: "AtomicUpdateObject (at_time 10 ''v3'') (bucket ?mu) (key ?mu) (Unlock_fn json_codec ?mu) () ?bad
      = (Inl (JSONError ''invalid character''), (), ?bad)"
    by (simp add: ev json_Unmarshal_def)
  have 3: "Unlock json_codec (at_time 10 ''v3'') ?mu ?bad =
      (Some (JSONError ''invalid character''), ?mu, ?bad)"
    using Unlock_outcome [where mu = ?mu and cd = json_codec and w = "at_time 10 ''v3''"
        and st = ?bad and r = "Inl (JSONError ''invalid character'')" and u = "()" and st' = ?bad] R3
    by (simp add: ex_defs)
  have R4: "AtomicUpdateObject (at_time 10 ''v2'') (bucket ?mu) (key ?mu) (Unlock_fn json_codec ?mu) () ?s1
      = (Inr ''v2'', (), stored ''v2'' (json_bytes \<lparr>ID = [], Expires = None, Fence = 3\<rparr>))"
    by (simp add: ev)
  have 4: "Unlock json_codec (at_time 10 ''v2'') ?mu ?s1 =
      (None, ?mu\<lparr>etag := []\<rparr>, stored ''v2'' (json_bytes \<lparr>ID = [], Expires = None, Fence = 3\<rparr>))"
    using Unlock_outcome [where mu = ?mu and cd = json_codec and w = "at_time 10 ''v2''"
        and st = ?s1 and r = "Inr ''v2''" and u = "()"
        and st' = "stored ''v2'' (json_bytes \<lparr>ID = [], Expires = None, Fence = 3\<rparr>)"] R4
    by (simp add: ex_defs)
  have "?mu\<lparr>etag := []\<rparr> = alice"
    by (simp add: ex_defs)
  with 1 2 3 4 show ?thesis by simp
qed

section \<open>Runs: the fence\<close>

lemma reads_back_json_codec: "reads_back json_codec"
  unfolding reads_back_def
proof (intro allI impI)
  fix c d
  assume "Marshal json_codec c = Inr d"
  then have "d = json_bytes c" by (simp add: json_Marshal_bytes)
  then show "d \<noteq> [] \<and> (\<exists>c'. Unmarshal json_codec d zero_content = Inr c' \<and>
      Fence c' = Fence c \<and> Expires c' = Expires c)"
    by (simp add: json_bytes_not_empty json_Unmarshal_bytes)
qed

lemma TryLock_cases:
  assumes "TryLock cd w expiresIn mu st = ((ok, tok, err), mu', st')"
  shows "if ok then
           (\<exists>c newData t.
              (\<forall>e. get_outcome w \<noteq> GetFailed e) \<and>
              TryLock_read cd w (snd (read_object w st (bucket mu) (key mu))) = Inr c \<and>
              Marshal cd (TryLock_update w mu expiresIn c) = Inr newData \<and>
              put_outcome w = PutOK t \<and> tok = Fence c + 1 \<and> mu' = mu\<lparr>etag := t\<rparr> \<and>
              st' = st((bucket mu, key mu) \<mapsto> \<lparr>obj_etag = t, obj_data = newData\<rparr>))
         else mu' = mu \<and> st' = st"
proof -
  obtain tag d where rd: "read_object w st (bucket mu) (key mu) = (tag, d)"
    by (cases "read_object w st (bucket mu) (key mu)")
  obtain r s where fn: "TryLock_fn cd w mu expiresIn tag d 0 = (r, s)"
    by (cases "TryLock_fn cd w mu expiresIn tag d 0")
  note fs = TryLock_fn_state [OF fn]
  show ?thesis
    using assms rd fn fs
    by (auto simp: TryLock_def AtomicUpdateObject_def
        split: get_result.splits sum.splits put_result.splits if_splits)
qed

lemma Unlock_cases:
  assumes "Unlock cd w mu st = (err, mu', st')"
  shows "(st' = st \<and> (mu' = mu \<or> (mu' = mu\<lparr>etag := []\<rparr> \<and> err = None))) \<or>
         (\<exists>c newData t.
            err = None \<and> mu' = mu\<lparr>etag := []\<rparr> \<and> etag mu \<noteq> [] \<and>
            (\<forall>e. get_outcome w \<noteq> GetFailed e) \<and>
            fst (read_object w st (bucket mu) (key mu)) = etag mu \<and>
            Unlock_read cd (snd (read_object w st (bucket mu) (key mu))) = Inr c \<and>
            Marshal cd c = Inr newData \<and> put_outcome w = PutOK t \<and>
            st' = st((bucket mu, key mu) \<mapsto> \<lparr>obj_etag = t, obj_data = newData\<rparr>))"
proof -
  obtain tag d where rd: "read_object w st (bucket mu) (key mu) = (tag, d)"
    by (cases "read_object w st (bucket mu) (key mu)")
  show ?thesis
    using assms rd
    by (auto simp: Unlock_def AtomicUpdateObject_def Unlock_fn_def
        split: get_result.splits sum.splits put_result.splits if_splits)
qed

lemma read_object_honest:
  assumes "get_outcome w \<noteq> GetIgnored" "\<forall>e. get_outcome w \<noteq> GetFailed e"
  shows "read_object w st bkt k =
           (case st (bkt, k) of Some ob \<Rightarrow> (obj_etag ob, obj_data ob) | None \<Rightarrow> ([], []))"
  using assms by (cases "get_outcome w") (auto simp: read_object_def)

lemma fence_of_written:
  assumes "reads_back cd" "Marshal cd c = Inr d"
  shows "fence_of cd (st(loc \<mapsto> \<lparr>obj_etag = t, obj_data = d\<rparr>)) loc = Some (Fence c)"
proof -
  from assms obtain c' where "d \<noteq> []" "Unmarshal cd d zero_content = Inr c'" "Fence c' = Fence c"
    unfolding reads_back_def by blast
  then show ?thesis by (simp add: fence_of_def)
qed

lemma TryLock_read_fence:
  assumes "TryLock_read cd w (snd (case st loc of Some ob \<Rightarrow> (obj_etag ob, obj_data ob) | None \<Rightarrow> ([], []))) = Inr c"
  shows "fence_of cd st loc = Some (Fence c)"
  using assms
  by (auto simp: TryLock_read_def fence_of_def zero_content_def split: option.splits sum.splits if_splits)

lemma Unlock_read_fence:
  assumes "Unlock_read cd (snd (case st loc of Some ob \<Rightarrow> (obj_etag ob, obj_data ob) | None \<Rightarrow> ([], []))) = Inr c"
  shows "fence_of cd st loc = Some (Fence c)"
  using assms
  by (auto simp: Unlock_read_def fence_of_def zero_content_def split: option.splits sum.splits if_splits)

lemma TryLock_fence:
  assumes rb: "reads_back cd" and h: "get_outcome w \<noteq> GetIgnored"
    and T: "TryLock cd w expiresIn mu st = ((ok, tok, err), mu', st')"
  shows "if ok then
           (\<exists>f. fence_of cd st (bucket mu, key mu) = Some f \<and> tok = f + 1 \<and>
                fence_of cd st' (bucket mu, key mu) = Some (f + 1))
         else st' = st"
proof (cases ok)
  case False
  with TryLock_cases [OF T] show ?thesis by simp
next
  case True
  with TryLock_cases [OF T] obtain c newData t where
    a: "\<forall>e. get_outcome w \<noteq> GetFailed e"
      "TryLock_read cd w (snd (read_object w st (bucket mu) (key mu))) = Inr c"
      "Marshal cd (TryLock_update w mu expiresIn c) = Inr newData"
      "tok = Fence c + 1"
      "st' = st((bucket mu, key mu) \<mapsto> \<lparr>obj_etag = t, obj_data = newData\<rparr>)"
    by auto
  from a(2) have "fence_of cd st (bucket mu, key mu) = Some (Fence c)"
    using TryLock_read_fence [of cd w st "(bucket mu, key mu)" c]
    by (simp add: read_object_honest [OF h a(1)])
  moreover have "fence_of cd st' (bucket mu, key mu) = Some (Fence c + 1)"
    using fence_of_written [OF rb a(3)] a(5) by (simp add: TryLock_update_def)
  ultimately show ?thesis using True a(4) by simp
qed

lemma Unlock_fence:
  assumes rb: "reads_back cd" and h: "get_outcome w \<noteq> GetIgnored"
    and U: "Unlock cd w mu st = (err, mu', st')"
  shows "fence_of cd st' (bucket mu, key mu) = fence_of cd st (bucket mu, key mu)"
proof -
  from Unlock_cases [OF U] consider "st' = st"
    | c newData t where "\<forall>e. get_outcome w \<noteq> GetFailed e"
        "Unlock_read cd (snd (read_object w st (bucket mu) (key mu))) = Inr c"
        "Marshal cd c = Inr newData"
        "st' = st((bucket mu, key mu) \<mapsto> \<lparr>obj_etag = t, obj_data = newData\<rparr>)"
    by blast
  then show ?thesis
  proof cases
    case 1
    then show ?thesis by simp
  next
    case 2
    from 2(2) have "fence_of cd st (bucket mu, key mu) = Some (Fence c)"
      using Unlock_read_fence [of cd st "(bucket mu, key mu)" c]
      by (simp add: read_object_honest [OF h 2(1)])
    moreover have "fence_of cd st' (bucket mu, key mu) = Some (Fence c)"
      using fence_of_written [OF rb 2(3)] 2(4) by simp
    ultimately show ?thesis by simp
  qed
qed

lemma step_same_key:
  assumes "same_key s loc"
  shows "same_key (step cd s e) loc"
proof -
  obtain h opn w where e: "e = (h, opn, w)" by (cases e)
  show ?thesis
  proof (cases opn)
    case (OpTryLock len)
    obtain ok tok err mu' st' where
      T: "TryLock cd w len (handles s h) (objects s) = ((ok, tok, err), mu', st')"
      by (metis prod_cases3)
    from TryLock_cases [OF T] have "bucket mu' = bucket (handles s h) \<and> key mu' = key (handles s h)"
      by (auto split: if_splits)
    with assms show ?thesis
      by (auto simp: e OpTryLock T same_key_def)
  next
    case OpUnlock
    obtain err mu' st' where U: "Unlock cd w (handles s h) (objects s) = (err, mu', st')"
      by (metis prod_cases3)
    from Unlock_cases [OF U] have "bucket mu' = bucket (handles s h) \<and> key mu' = key (handles s h)"
      by auto
    with assms show ?thesis
      by (auto simp: e OpUnlock U same_key_def)
  qed
qed

lemma step_fence:
  assumes rb: "reads_back cd" and hon: "honest [e]" and sk: "same_key s loc"
  shows "(issued (step cd s e) = issued s \<and>
          fence_of cd (objects (step cd s e)) loc = fence_of cd (objects s) loc) \<or>
         (\<exists>f. fence_of cd (objects s) loc = Some f \<and>
              issued (step cd s e) = issued s @ [f + 1] \<and>
              fence_of cd (objects (step cd s e)) loc = Some (f + 1))"
proof -
  obtain h opn w where e: "e = (h, opn, w)" by (cases e)
  from hon have gi: "get_outcome w \<noteq> GetIgnored" by (simp add: honest_def e)
  from sk have loc: "(bucket (handles s h), key (handles s h)) = loc" by (simp add: same_key_def)
  show ?thesis
  proof (cases opn)
    case (OpTryLock len)
    obtain ok tok err mu' st' where
      T: "TryLock cd w len (handles s h) (objects s) = ((ok, tok, err), mu', st')"
      by (metis prod_cases3)
    from TryLock_fence [OF rb gi T] loc show ?thesis
      by (cases ok) (auto simp: e OpTryLock T)
  next
    case OpUnlock
    obtain err mu' st' where U: "Unlock cd w (handles s h) (objects s) = (err, mu', st')"
      by (metis prod_cases3)
    from Unlock_fence [OF rb gi U] loc show ?thesis
      by (auto simp: e OpUnlock U)
  qed
qed

lemma run_Cons: "run cd s (e # evs) = run cd (step cd s e) evs"
  by (simp add: run_def)

lemma run_Nil: "run cd s [] = s"
  by (simp add: run_def)

lemma honest_Cons: "honest (e # evs) \<longleftrightarrow> honest [e] \<and> honest evs"
  by (simp add: honest_def)

lemma run_undecodable:
  assumes rb: "reads_back cd" and hon: "honest evs" and sk: "same_key s loc"
    and f: "fence_of cd (objects s) loc = None"
  shows "issued (run cd s evs) = issued s"
  using hon sk f
proof (induction evs arbitrary: s)
  case Nil
  show ?case by (simp add: run_Nil)
next
  case (Cons e evs)
  from Cons.prems have h: "honest [e]" "honest evs" by (simp_all add: honest_def)
  from step_fence [OF rb h(1) Cons.prems(2)] Cons.prems(3)
  have "issued (step cd s e) = issued s" "fence_of cd (objects (step cd s e)) loc = None"
    by auto
  with Cons.IH [OF h(2) step_same_key [OF Cons.prems(2)]] show ?case
    by (simp add: run_Cons)
qed

lemma tokens_shift:
  "(f + 1) # map (\<lambda>i. (f + 1) + 1 + of_nat i) [0..<n] = map (\<lambda>i. f + 1 + of_nat i) [0..<Suc n]"
    for f :: int64
proof -
  have "[0..<Suc n] = 0 # map Suc [0..<n]"
    by (simp only: upt_conv_Cons [OF zero_less_Suc] map_Suc_upt)
  then show ?thesis
    by (simp add: o_def add.assoc del: upt_Suc)
qed

lemma run_tokens:
  assumes rb: "reads_back cd" and hon: "honest evs" and sk: "same_key s loc"
    and f: "fence_of cd (objects s) loc = Some f"
  shows "\<exists>n \<le> length evs.
           issued (run cd s evs) = issued s @ map (\<lambda>i. f + 1 + of_nat i) [0..<n] \<and>
           fence_of cd (objects (run cd s evs)) loc = Some (f + of_nat n)"
  using hon sk f
proof (induction evs arbitrary: s f)
  case Nil
  show ?case using Nil.prems by (simp add: run_Nil)
next
  case (Cons e evs)
  from Cons.prems have h: "honest [e]" "honest evs" by (simp_all add: honest_def)
  note sk' = step_same_key [OF Cons.prems(2), of cd e]
  from step_fence [OF rb h(1) Cons.prems(2)] Cons.prems(3)
  consider (same) "issued (step cd s e) = issued s"
      "fence_of cd (objects (step cd s e)) loc = Some f"
    | (acq) "issued (step cd s e) = issued s @ [f + 1]"
      "fence_of cd (objects (step cd s e)) loc = Some (f + 1)"
    by auto
  then show ?case
  proof cases
    case same
    from Cons.IH [OF h(2) sk' same(2)] obtain n where
      "n \<le> length evs"
      "issued (run cd (step cd s e) evs) = issued (step cd s e) @ map (\<lambda>i. f + 1 + of_nat i) [0..<n]"
      "fence_of cd (objects (run cd (step cd s e) evs)) loc = Some (f + of_nat n)"
      by blast
    with same(1) show ?thesis
      by (intro exI [of _ n]) (simp add: run_Cons)
  next
    case acq
    from Cons.IH [OF h(2) sk' acq(2)] obtain n where n:
      "n \<le> length evs"
      "issued (run cd (step cd s e) evs) =
         issued (step cd s e) @ map (\<lambda>i. (f + 1) + 1 + of_nat i) [0..<n]"
      "fence_of cd (objects (run cd (step cd s e) evs)) loc = Some (f + 1 + of_nat n)"
      by blast
    have "issued (run cd s (e # evs)) = issued s @ map (\<lambda>i. f + 1 + of_nat i) [0..<Suc n]"
      using n(2) acq(1) tokens_shift [of f n] by (simp add: run_Cons del: upt_Suc)
    moreover have "fence_of cd (objects (run cd s (e # evs))) loc = Some (f + of_nat (Suc n))"
      using n(3) by (simp add: run_Cons add.assoc add.commute)
    ultimately show ?thesis
      using n(1) by (intro exI [of _ "Suc n"]) simp
  qed
qed

lemma sint_add_of_nat:
  fixes f :: int64
  assumes "sint f + int i < 2 ^ 63"
  shows "sint (f + of_nat i) = sint f + int i"
proof -
  have "f + of_nat i = word_of_int (sint f + int i)"
    by simp
  moreover have "- (2 ^ 63) \<le> sint f"
    using sint_range_size [of f] by (simp add: word_size)
  ultimately show ?thesis
    using assms by (simp only: sint_sbintrunc') (simp add: signed_take_bit_int_eq_self)
qed

text \<open>The calls of the two example runs, one by one.\<close>

lemma TryLock_json_absent:
  assumes "bucket mu = ''bkt''" "key mu = ''lock''"
  shows "TryLock json_codec (at_time t tag) len mu Map.empty =
           ((True, 1, None), mu\<lparr>etag := tag\<rparr>,
            stored tag (json_bytes \<lparr>ID = id_mu mu, Expires = Some (t + sint len), Fence = 1\<rparr>))"
  using assms
  by (simp add: TryLock_def AtomicUpdateObject_def read_object_def TryLock_fn_def
      TryLock_read_def TryLock_update_def time_Add_def at_time_def stored_def zero_content_def
      json_Marshal_bytes)

lemma TryLock_json_expired:
  assumes "bucket mu = ''bkt''" "key mu = ''lock''" "Expires c = Some e" "e < t"
  shows "TryLock json_codec (at_time t tag) len mu (stored tag0 (json_bytes c)) =
           ((True, Fence c + 1, None), mu\<lparr>etag := tag\<rparr>,
            stored tag (json_bytes (c\<lparr>Expires := Some (t + sint len), ID := id_mu mu,
                                      Fence := Fence c + 1\<rparr>)))"
  using assms
  by (simp add: TryLock_def AtomicUpdateObject_def read_object_def TryLock_fn_def
      TryLock_read_def TryLock_update_def time_Add_def time_After_def at_time_def stored_def
      json_Marshal_bytes json_Unmarshal_bytes json_bytes_not_empty)

lemma TryLock_json_released:
  assumes "bucket mu = ''bkt''" "key mu = ''lock''" "Expires c = None"
  shows "TryLock json_codec (at_time t tag) len mu (stored tag0 (json_bytes c)) =
           ((True, Fence c + 1, None), mu\<lparr>etag := tag\<rparr>,
            stored tag (json_bytes (c\<lparr>Expires := Some (t + sint len), ID := id_mu mu,
                                      Fence := Fence c + 1\<rparr>)))"
  using assms
  by (simp add: TryLock_def AtomicUpdateObject_def read_object_def TryLock_fn_def
      TryLock_read_def TryLock_update_def time_Add_def time_After_def at_time_def stored_def
      json_Marshal_bytes json_Unmarshal_bytes json_bytes_not_empty)

lemma TryLock_json_held:
  assumes "bucket mu = ''bkt''" "key mu = ''lock''" "Expires c = Some e" "t \<le> e"
  shows "TryLock json_codec (at_time t tag) len mu (stored tag0 (json_bytes c)) =
           ((False, - 1, None), mu, stored tag0 (json_bytes c))"
  using assms
  by (simp add: TryLock_def AtomicUpdateObject_def read_object_def TryLock_fn_def
      TryLock_read_def time_After_def at_time_def stored_def
      json_Unmarshal_bytes json_bytes_not_empty)

lemma Unlock_json_match:
  assumes "bucket mu = ''bkt''" "key mu = ''lock''" "etag mu = tag0" "tag0 \<noteq> []"
  shows "Unlock json_codec (at_time t tag) mu (stored tag0 (json_bytes c)) =
           (None, mu\<lparr>etag := []\<rparr>, stored tag (json_bytes (c\<lparr>ID := [], Expires := None\<rparr>)))"
  using assms
  by (simp add: Unlock_def AtomicUpdateObject_def read_object_def Unlock_fn_def
      Unlock_read_def at_time_def stored_def
      json_Marshal_bytes json_Unmarshal_bytes json_bytes_not_empty)

lemma alice_fields:
  "bucket alice = ''bkt''" "key alice = ''lock''" "id_mu alice = ''alice''" "etag alice = []"
  by (simp_all add: alice_def NewMutex_def)

lemma bob_fields:
  "bucket bob = ''bkt''" "key bob = ''lock''" "id_mu bob = ''bob''" "etag bob = []"
  by (simp_all add: bob_def NewMutex_def)

lemma at_time_fields:
  "ctx_done (at_time t tag) = False" "get_outcome (at_time t tag) = GetOK"
  "put_outcome (at_time t tag) = PutOK tag" "now_check (at_time t tag) = t"
  "now_expiry (at_time t tag) = t"
  by (simp_all add: at_time_def)

lemmas run_simps = init_system_def contenders_def alice_fields bob_fields at_time_fields
  time_Add_def TryLock_json_absent TryLock_json_expired TryLock_json_released
  TryLock_json_held Unlock_json_match

lemma step_handover_1:
  "step json_codec (init_system contenders Map.empty) (0, OpTryLock 5, at_time 10 ''v1'') =
     \<lparr>handles = contenders(0 := alice\<lparr>etag := ''v1''\<rparr>),
      objects = stored ''v1'' (json_bytes \<lparr>ID = ''alice'', Expires = Some 15, Fence = 1\<rparr>),
      leases = (\<lambda>h. None)(0 := Some 15),
      issued = [1]\<rparr>"
  by (simp add: run_simps)

lemma step_handover_2:
  "step json_codec
     \<lparr>handles = contenders(0 := alice\<lparr>etag := ''v1''\<rparr>),
      objects = stored ''v1'' (json_bytes \<lparr>ID = ''alice'', Expires = Some 15, Fence = 1\<rparr>),
      leases = (\<lambda>h. None)(0 := Some 15),
      issued = [1]\<rparr>
     (1, OpTryLock 5, at_time 12 ''v2'') =
     \<lparr>handles = contenders(0 := alice\<lparr>etag := ''v1''\<rparr>),
      objects = stored ''v1'' (json_bytes \<lparr>ID = ''alice'', Expires = Some 15, Fence = 1\<rparr>),
      leases = (\<lambda>h. None)(0 := Some 15),
      issued = [1]\<rparr>"
  by (simp add: run_simps fun_upd_idem)

lemma step_handover_3:
  "step json_codec
     \<lparr>handles = contenders(0 := alice\<lparr>etag := ''v1''\<rparr>),
      objects = stored ''v1'' (json_bytes \<lparr>ID = ''alice'', Expires = Some 15, Fence = 1\<rparr>),
      leases = (\<lambda>h. None)(0 := Some 15),
      issued = [1]\<rparr>
     (0, OpUnlock, at_time 13 ''v3'') =
     \<lparr>handles = contenders(0 := alice),
      objects = stored ''v3'' (json_bytes \<lparr>ID = [], Expires = None, Fence = 1\<rparr>),
      leases = (\<lambda>h. None),
      issued = [1]\<rparr>"
  by (simp add: run_simps alice_def NewMutex_def)

lemma step_handover_4:
  "step json_codec
     \<lparr>handles = contenders(0 := alice),
      objects = stored ''v3'' (json_bytes \<lparr>ID = [], Expires = None, Fence = 1\<rparr>),
      leases = (\<lambda>h. None),
      issued = [1]\<rparr>
     (1, OpTryLock 5, at_time 14 ''v4'') =
     \<lparr>handles = contenders(0 := alice, 1 := bob\<lparr>etag := ''v4''\<rparr>),
      objects = stored ''v4'' (json_bytes \<lparr>ID = ''bob'', Expires = Some 19, Fence = 2\<rparr>),
      leases = (\<lambda>h. None)(1 := Some 19),
      issued = [1, 2]\<rparr>"
  by (simp add: run_simps)

lemma run_handover:
  "run json_codec (init_system contenders Map.empty) handover =
     \<lparr>handles = contenders(0 := alice, 1 := bob\<lparr>etag := ''v4''\<rparr>),
      objects = stored ''v4'' (json_bytes \<lparr>ID = ''bob'', Expires = Some 19, Fence = 2\<rparr>),
      leases = (\<lambda>h. None)(1 := Some 19),
      issued = [1, 2]\<rparr>"
  by (simp only: run_def handover_def foldl.simps step_handover_1 step_handover_2
      step_handover_3 step_handover_4)

lemma step_takeover_2:
  "step json_codec
     \<lparr>handles = contenders(0 := alice\<lparr>etag := ''v1''\<rparr>),
      objects = stored ''v1'' (json_bytes \<lparr>ID = ''alice'', Expires = Some 15, Fence = 1\<rparr>),
      leases = (\<lambda>h. None)(0 := Some 15),
      issued = [1]\<rparr>
     (1, OpTryLock 5, at_time 20 ''v2'') =
     \<lparr>handles = contenders(0 := alice\<lparr>etag := ''v1''\<rparr>, 1 := bob\<lparr>etag := ''v2''\<rparr>),
      objects = stored ''v2'' (json_bytes \<lparr>ID = ''bob'', Expires = Some 25, Fence = 2\<rparr>),
      leases = (\<lambda>h. None)(0 := Some 15, 1 := Some 25),
      issued = [1, 2]\<rparr>"
  by (simp add: run_simps)

lemma run_takeover:
  "run json_codec (init_system contenders Map.empty) takeover =
     \<lparr>handles = contenders(0 := alice\<lparr>etag := ''v1''\<rparr>, 1 := bob\<lparr>etag := ''v2''\<rparr>),
      objects = stored ''v2'' (json_bytes \<lparr>ID = ''bob'', Expires = Some 25, Fence = 2\<rparr>),
      leases = (\<lambda>h. None)(0 := Some 15, 1 := Some 25),
      issued = [1, 2]\<rparr>"
  by (simp only: run_def takeover_def foldl.simps step_handover_1 step_takeover_2)

lemma honest_handover: "honest handover"
  by (simp add: honest_def handover_def at_time_fields)

lemma honest_takeover: "honest takeover"
  by (simp add: honest_def takeover_def at_time_fields)

lemma same_key_contenders: "same_key (init_system contenders st) (''bkt'', ''lock'')"
  by (simp add: same_key_def init_system_def contenders_def alice_fields bob_fields)

text \<open>
  Claim C2, as the code has it. Take any sequence of \<^verbatim>\<open>TryLock\<close> and \<^verbatim>\<open>Unlock\<close> calls by
  any handles on one key, with a codec that reads back the fence it wrote and a store
  that ignores no failed read. If the fence stored at the start is \<open>f\<close> and \<open>f\<close> plus
  the number of calls stays below \<open>2^63\<close>, then the tokens returned by the successful
  acquisitions are \<open>f + 1\<close>, \<open>f + 2\<close>, ... in this order: they increase strictly as
  signed numbers, none is returned twice, and the fence stored at the end is \<open>f\<close> plus
  the number of acquisitions, so that a successful \<^verbatim>\<open>TryLock\<close> adds one and \<^verbatim>\<open>Unlock\<close>
  adds nothing. When the stored bytes do not decode, no token is returned at all.
\<close>

theorem fence_tokens_increase:
  assumes "reads_back cd" and "honest evs" and "same_key s loc" and "issued s = []"
    and "\<forall>f. fence_of cd (objects s) loc = Some f \<longrightarrow> sint f + int (length evs) < 2 ^ 63"
  shows "sorted_wrt (\<lambda>x y. sint x < sint y) (issued (run cd s evs)) \<and>
         distinct (issued (run cd s evs)) \<and>
         (\<forall>f. fence_of cd (objects s) loc = Some f \<longrightarrow>
            issued (run cd s evs) =
              map (\<lambda>i. f + 1 + of_nat i) [0..<length (issued (run cd s evs))] \<and>
            (\<forall>tok \<in> set (issued (run cd s evs)). sint f < sint tok) \<and>
            fence_of cd (objects (run cd s evs)) loc =
              Some (f + of_nat (length (issued (run cd s evs)))))"
proof (cases "fence_of cd (objects s) loc")
  case None
  with run_undecodable [OF assms(1-3)] assms(4) show ?thesis by simp
next
  case (Some f)
  from run_tokens [OF assms(1-3) Some] assms(4) obtain n where n:
    "n \<le> length evs" "issued (run cd s evs) = map (\<lambda>i. f + 1 + of_nat i) [0..<n]"
    "fence_of cd (objects (run cd s evs)) loc = Some (f + of_nat n)"
    by auto
  from assms(5) Some have bound: "sint f + int (length evs) < 2 ^ 63" by simp
  have val: "sint (f + 1 + of_nat i) = sint f + 1 + int i" if "i < n" for i
  proof -
    have "f + 1 + of_nat i = f + of_nat (Suc i)" by simp
    moreover have "sint f + int (Suc i) < 2 ^ 63" using that n(1) bound by simp
    ultimately show ?thesis
      using sint_add_of_nat [of f "Suc i"] by (simp add: add.assoc)
  qed
  have "sorted_wrt (\<lambda>x y. sint (f + 1 + of_nat x) < sint (f + 1 + of_nat y)) [0..<n]"
    by (rule sorted_wrt_mono_rel [of "[0..<n]" "(<)"]) (simp_all add: val)
  then have 1: "sorted_wrt (\<lambda>x y. sint x < sint y) (issued (run cd s evs))"
    by (simp add: n(2) sorted_wrt_map)
  have "inj_on (\<lambda>i. f + 1 + of_nat i) (set [0..<n])"
  proof (rule inj_onI)
    fix x y
    assume x: "x \<in> set [0..<n]" and y: "y \<in> set [0..<n]"
      and eq: "f + 1 + of_nat x = f + 1 + of_nat y"
    from x have vx: "sint (f + 1 + of_nat x) = sint f + 1 + int x"
      by (intro val) simp
    from y have vy: "sint (f + 1 + of_nat y) = sint f + 1 + int y"
      by (intro val) simp
    from eq have "sint (f + 1 + of_nat x) = sint (f + 1 + of_nat y)"
      by (rule arg_cong)
    with vx vy have "int x = int y" by linarith
    then show "x = y" by (simp only: int_int_eq)
  qed
  then have 2: "distinct (issued (run cd s evs))"
    by (simp add: n(2) distinct_map)
  have 3: "\<forall>tok \<in> set (issued (run cd s evs)). sint f < sint tok"
    using val by (auto simp: n(2))
  from 1 2 3 n Some show ?thesis by simp
qed

text \<open>An instance: the run \<open>handover\<close> returns the tokens 1 and 2 and leaves the fence 2.\<close>

theorem fence_tokens_increase_witness:
  "issued (run json_codec (init_system contenders Map.empty) handover) = [1, 2] \<and>
   sorted_wrt (\<lambda>x y. sint x < sint y)
     (issued (run json_codec (init_system contenders Map.empty) handover)) \<and>
   distinct (issued (run json_codec (init_system contenders Map.empty) handover)) \<and>
   fence_of json_codec (objects (run json_codec (init_system contenders Map.empty) handover))
     (''bkt'', ''lock'') = Some 2"
proof -
  have f0: "fence_of json_codec (objects (init_system contenders Map.empty)) (''bkt'', ''lock'') = Some 0"
    by (simp add: fence_of_def init_system_def)
  have bound: "\<forall>f. fence_of json_codec (objects (init_system contenders Map.empty)) (''bkt'', ''lock'') = Some f
      \<longrightarrow> sint f + int (length handover) < 2 ^ 63"
    by (simp add: f0 handover_def)
  have i0: "issued (init_system contenders Map.empty) = []"
    by (simp add: init_system_def)
  from fence_tokens_increase [OF reads_back_json_codec honest_handover same_key_contenders i0 bound] f0
  show ?thesis
    by (simp add: run_handover)
qed

text \<open>
  Claim C2 as the spec words it fails where the \<^verbatim>\<open>int64\<close> wraps: on a stored fence of
  \<open>2^63 - 1\<close> a successful \<^verbatim>\<open>TryLock\<close> returns and stores \<open>-2^63\<close>, which is less.
\<close>

theorem fence_wraps_counterexample:
  "fence_of json_codec
     (stored ''v1'' (json_bytes \<lparr>ID = [], Expires = None, Fence = 9223372036854775807\<rparr>))
     (''bkt'', ''lock'') = Some 9223372036854775807 \<and>
   TryLock json_codec (at_time 10 ''v2'') 5 bob
     (stored ''v1'' (json_bytes \<lparr>ID = [], Expires = None, Fence = 9223372036854775807\<rparr>)) =
     ((True, 9223372036854775808, None), bob\<lparr>etag := ''v2''\<rparr>,
      stored ''v2'' (json_bytes \<lparr>ID = ''bob'', Expires = Some 15, Fence = 9223372036854775808\<rparr>)) \<and>
   fence_of json_codec
     (stored ''v2'' (json_bytes \<lparr>ID = ''bob'', Expires = Some 15, Fence = 9223372036854775808\<rparr>))
     (''bkt'', ''lock'') = Some 9223372036854775808 \<and>
   sint (9223372036854775808 :: int64) < sint (9223372036854775807 :: int64)"
  by (simp add: fence_of_def TryLock_def AtomicUpdateObject_def read_object_def TryLock_fn_def
      TryLock_read_def TryLock_update_def time_After_def time_Add_def ex_defs
      json_Unmarshal_bytes json_bytes_not_empty json_Marshal_bytes)

section \<open>Runs: mutual exclusion\<close>

lemma run_snoc: "run cd s (evs @ [e]) = step cd (run cd s evs) e"
  by (simp add: run_def)

lemma readings_append: "readings (evs @ evs') = readings evs @ readings evs'"
  by (induction evs rule: readings.induct) simp_all

lemma put_tags_append: "put_tags (evs @ evs') = put_tags evs @ put_tags evs'"
  by (induction evs rule: put_tags.induct) (simp_all split: put_result.splits)

lemma honest_append: "honest (evs @ evs') \<longleftrightarrow> honest evs \<and> honest evs'"
  by (simp add: honest_def)

lemma holds_antimono: "holds s h t \<Longrightarrow> t' \<le> t \<Longrightarrow> holds s h t'"
  by (auto simp: holds_def split: option.splits)

lemma matches_cong:
  assumes "objects s' = objects s" "etag (handles s' h) = etag (handles s h)" "leases s' h = leases s h"
  shows "matches cd s' loc h = matches cd s loc h"
  using assms by (simp add: matches_def)

lemma step_inv_TryLock:
  assumes rb: "reads_back cd" and gi: "get_outcome w \<noteq> GetIgnored"
    and inv: "lease_inv cd loc evs s"
    and srt: "sorted (readings (evs @ [(h, OpTryLock len, w)]))"
    and dst: "distinct (put_tags (evs @ [(h, OpTryLock len, w)]))"
    and ne: "[] \<notin> set (put_tags (evs @ [(h, OpTryLock len, w)]))"
  shows "lease_inv cd loc (evs @ [(h, OpTryLock len, w)]) (step cd s (h, OpTryLock len, w))"
proof -
  let ?e = "(h, OpTryLock len, w)"
  let ?mu = "handles s h"
  obtain ok tok err mu' st' where
    T: "TryLock cd w len ?mu (objects s) = ((ok, tok, err), mu', st')"
    by (metis prod_cases3)
  from inv have sk: "same_key s loc"
    and mem: "\<And>a. etag (handles s a) \<noteq> [] \<Longrightarrow> etag (handles s a) \<in> set (put_tags evs)"
    and inj: "\<And>a b. etag (handles s a) \<noteq> [] \<Longrightarrow> etag (handles s a) = etag (handles s b) \<Longrightarrow> a = b"
    and mt: "\<And>a t. (\<forall>r \<in> set (readings evs). r \<le> t) \<Longrightarrow> holds s a t \<Longrightarrow> matches cd s loc a"
    by (auto simp: lease_inv_def)
  from sk have loc: "(bucket ?mu, key ?mu) = loc" by (simp add: same_key_def)
  have rds: "readings (evs @ [?e]) = readings evs @ [now_check w, now_expiry w]"
    by (simp add: readings_append)
  from srt have before: "\<forall>r \<in> set (readings evs). r \<le> now_check w"
    and chk: "now_check w \<le> now_expiry w"
    by (auto simp: rds sorted_append)
  note sk' = step_same_key [OF sk, of cd ?e]
  show ?thesis
  proof (cases ok)
    case False
    with TryLock_cases [OF T] have same: "mu' = ?mu" "st' = objects s" by simp_all
    have st: "step cd s ?e = s"
      using False same by (simp add: T)
    show ?thesis
      unfolding st lease_inv_def
      using sk mem inj mt by (auto simp: put_tags_append rds)
  next
    case True
    with TryLock_cases [OF T] obtain c newData t where a:
      "\<forall>e. get_outcome w \<noteq> GetFailed e"
      "TryLock_read cd w (snd (read_object w (objects s) (bucket ?mu) (key ?mu))) = Inr c"
      "Marshal cd (TryLock_update w ?mu len c) = Inr newData"
      "put_outcome w = PutOK t" "mu' = ?mu\<lparr>etag := t\<rparr>"
      "st' = (objects s)((bucket ?mu, key ?mu) \<mapsto> \<lparr>obj_etag = t, obj_data = newData\<rparr>)"
      by auto
    define s' where "s' = step cd s ?e"
    have hs: "handles s' = (handles s)(h := ?mu\<lparr>etag := t\<rparr>)"
      and ob: "objects s' = (objects s)(loc \<mapsto> \<lparr>obj_etag = t, obj_data = newData\<rparr>)"
      and ls: "leases s' = (leases s)(h := Some (time_Add (now_expiry w) len))"
      using True a(5,6) loc by (simp_all add: s'_def T)
    have tags: "put_tags (evs @ [?e]) = put_tags evs @ [t]"
      using a(4) by (simp add: put_tags_append)
    from dst ne have fresh: "t \<notin> set (put_tags evs)" "t \<noteq> []"
      by (auto simp: tags)
    have no_other: "\<not> holds s b (now_check w)" if "b \<noteq> h" for b
    proof
      assume hb: "holds s b (now_check w)"
      from mt [OF before hb] obtain ob' c' where m:
        "objects s loc = Some ob'" "obj_data ob' \<noteq> []"
        "Unmarshal cd (obj_data ob') zero_content = Inr c'" "Expires c' = leases s b"
        by (auto simp: matches_def)
      from hb obtain e where e: "leases s b = Some e" "now_check w \<le> e"
        by (auto simp: holds_def split: option.splits)
      have "read_object w (objects s) (bucket ?mu) (key ?mu) = (obj_etag ob', obj_data ob')"
        using m(1) loc by (simp add: read_object_honest [OF gi a(1)])
      moreover have "TryLock_read cd w (obj_data ob') = Inl ErrLockHeld"
        using m e by (simp add: TryLock_read_LockHeld)
      ultimately show False using a(2) by simp
    qed
    have 2: "\<forall>b. etag (handles s' b) \<noteq> [] \<longrightarrow> etag (handles s' b) \<in> set (put_tags (evs @ [?e]))"
      using mem by (auto simp: hs tags)
    have 3: "\<forall>a b. etag (handles s' a) \<noteq> [] \<longrightarrow> etag (handles s' a) = etag (handles s' b) \<longrightarrow> a = b"
    proof (intro allI impI)
      fix a b
      assume ne_a: "etag (handles s' a) \<noteq> []" and eq: "etag (handles s' a) = etag (handles s' b)"
      show "a = b"
      proof (cases "a = h")
        case True
        show ?thesis
        proof (rule ccontr)
          assume "a \<noteq> b"
          with True eq have "etag (handles s b) = t" by (simp add: hs)
          with mem [of b] fresh show False by simp
        qed
      next
        case False
        with ne_a have na: "etag (handles s a) \<noteq> []" by (simp add: hs)
        show ?thesis
        proof (cases "b = h")
          case True
          with False eq have "etag (handles s a) = t" by (simp add: hs)
          with mem [OF na] fresh show ?thesis by simp
        next
          case bf: False
          with False eq have "etag (handles s a) = etag (handles s b)" by (simp add: hs)
          with inj [OF na] show ?thesis by simp
        qed
      qed
    qed
    have 4: "\<forall>b u. (\<forall>r \<in> set (readings (evs @ [?e])). r \<le> u) \<longrightarrow> holds s' b u \<longrightarrow> matches cd s' loc b"
    proof (intro allI impI)
      fix b u
      assume u: "\<forall>r \<in> set (readings (evs @ [?e])). r \<le> u" and hb: "holds s' b u"
      show "matches cd s' loc b"
      proof (cases "b = h")
        case True
        from rb a(3) obtain c' where
          "newData \<noteq> []" "Unmarshal cd newData zero_content = Inr c'"
          "Expires c' = Expires (TryLock_update w ?mu len c)"
          unfolding reads_back_def by blast
        then show ?thesis
          using True by (simp add: matches_def hs ob ls TryLock_update_def)
      next
        case False
        from u have "now_check w \<le> u" by (simp add: rds)
        with hb False have "holds s b (now_check w)"
          by (auto simp: holds_def hs ls split: option.splits)
        with no_other [OF False] show ?thesis by simp
      qed
    qed
    from sk' 2 3 4 show ?thesis
      unfolding lease_inv_def s'_def by blast
  qed
qed

lemma Unlock_tag:
  assumes "Unlock cd w mu st = (err, mu', st')"
  shows "mu' = mu \<or> mu' = mu\<lparr>etag := []\<rparr>"
  using Unlock_cases [OF assms] by auto

lemma step_inv_Unlock:
  assumes rb: "reads_back cd" and gi: "get_outcome w \<noteq> GetIgnored"
    and inv: "lease_inv cd loc evs s"
  shows "lease_inv cd loc (evs @ [(h, OpUnlock, w)]) (step cd s (h, OpUnlock, w))"
proof -
  let ?e = "(h, OpUnlock, w)"
  let ?mu = "handles s h"
  obtain err mu' st' where U: "Unlock cd w ?mu (objects s) = (err, mu', st')"
    by (metis prod_cases3)
  from inv have sk: "same_key s loc"
    and mem: "\<And>a. etag (handles s a) \<noteq> [] \<Longrightarrow> etag (handles s a) \<in> set (put_tags evs)"
    and inj: "\<And>a b. etag (handles s a) \<noteq> [] \<Longrightarrow> etag (handles s a) = etag (handles s b) \<Longrightarrow> a = b"
    and mt: "\<And>a t. (\<forall>r \<in> set (readings evs). r \<le> t) \<Longrightarrow> holds s a t \<Longrightarrow> matches cd s loc a"
    by (auto simp: lease_inv_def)
  from sk have loc: "(bucket ?mu, key ?mu) = loc" by (simp add: same_key_def)
  have rds: "readings (evs @ [?e]) = readings evs"
    by (simp add: readings_append)
  have tags: "set (put_tags evs) \<subseteq> set (put_tags (evs @ [?e]))"
    by (simp add: put_tags_append)
  note sk' = step_same_key [OF sk, of cd ?e]
  define s' where "s' = step cd s ?e"
  have hs: "handles s' = (handles s)(h := mu')"
    and ob: "objects s' = st'"
    and ls: "leases s' = (if err = None then (leases s)(h := None) else leases s)"
    by (simp_all add: s'_def U)
  from Unlock_tag [OF U] have tg: "etag mu' = etag ?mu \<or> etag mu' = []" by auto
  have 2: "\<forall>b. etag (handles s' b) \<noteq> [] \<longrightarrow> etag (handles s' b) \<in> set (put_tags (evs @ [?e]))"
    using mem tags tg by (auto simp: hs)
  have 3: "\<forall>a b. etag (handles s' a) \<noteq> [] \<longrightarrow> etag (handles s' a) = etag (handles s' b) \<longrightarrow> a = b"
  proof (intro allI impI)
    fix a b
    assume ne_a: "etag (handles s' a) \<noteq> []" and eq: "etag (handles s' a) = etag (handles s' b)"
    from ne_a tg have na: "etag (handles s a) \<noteq> []" "etag (handles s' a) = etag (handles s a)"
      by (auto simp: hs split: if_splits)
    from eq ne_a tg have "etag (handles s' b) = etag (handles s b)"
      by (auto simp: hs split: if_splits)
    with eq na have "etag (handles s a) = etag (handles s b)" by simp
    with inj [OF na(1)] show "a = b" by simp
  qed
  have other: "matches cd s' loc b"
    if b: "b \<noteq> h" and u: "\<forall>r \<in> set (readings evs). r \<le> u" and hb: "holds s' b u" for b u
  proof -
    from hb b have hb': "holds s b u"
      by (auto simp: holds_def hs ls split: option.splits if_splits)
    from mt [OF u hb'] have m: "matches cd s loc b" .
    from Unlock_cases [OF U] consider "st' = objects s"
      | "etag ?mu \<noteq> []" "\<forall>e. get_outcome w \<noteq> GetFailed e"
        "fst (read_object w (objects s) (bucket ?mu) (key ?mu)) = etag ?mu"
      by blast
    then show ?thesis
    proof cases
      case 1
      have "matches cd s' loc b = matches cd s loc b"
        using b 1 by (intro matches_cong) (simp_all add: hs ob ls)
      with m show ?thesis by simp
    next
      case 2
      from m obtain ob' where o: "objects s loc = Some ob'" "obj_etag ob' = etag (handles s b)"
        by (auto simp: matches_def)
      from 2(3) o loc have "etag (handles s b) = etag ?mu"
        by (simp add: read_object_honest [OF gi 2(2)])
      moreover from hb' have "etag (handles s b) \<noteq> []" by (simp add: holds_def)
      ultimately have "b = h" using inj [of b h] by simp
      with b show ?thesis by simp
    qed
  qed
  have self: "matches cd s' loc h"
    if u: "\<forall>r \<in> set (readings evs). r \<le> u" and hh: "holds s' h u" for u
  proof -
    from hh have e: "etag mu' \<noteq> []" "err \<noteq> None"
      by (auto simp: holds_def hs ls split: option.splits if_splits)
    with Unlock_cases [OF U] have same: "st' = objects s" "mu' = ?mu" by auto
    with hh e have "holds s h u"
      by (auto simp: holds_def hs ls split: option.splits)
    from mt [OF u this] have "matches cd s loc h" .
    moreover have "matches cd s' loc h = matches cd s loc h"
    proof (rule matches_cong)
      show "objects s' = objects s" using same by (simp add: ob)
      show "etag (handles s' h) = etag (handles s h)" using same by (simp add: hs)
      from e(2) obtain y where "err = Some y" by blast
      then show "leases s' h = leases s h" by (simp add: ls)
    qed
    ultimately show ?thesis by simp
  qed
  have 4: "\<forall>b u. (\<forall>r \<in> set (readings (evs @ [?e])). r \<le> u) \<longrightarrow> holds s' b u \<longrightarrow> matches cd s' loc b"
  proof (intro allI impI)
    fix b u
    assume "\<forall>r \<in> set (readings (evs @ [?e])). r \<le> u" and hb: "holds s' b u"
    then have u: "\<forall>r \<in> set (readings evs). r \<le> u" by (simp only: rds)
    show "matches cd s' loc b"
    proof (cases "b = h")
      case True
      with self [OF u] hb show ?thesis by simp
    next
      case False
      from other [OF False u hb] show ?thesis .
    qed
  qed
  from sk' 2 3 4 show ?thesis
    unfolding lease_inv_def s'_def by blast
qed

lemma sorted_readings_prefix: "sorted (readings (evs @ evs')) \<Longrightarrow> sorted (readings evs)"
  by (simp add: readings_append sorted_append)

lemma run_inv:
  assumes rb: "reads_back cd" and "honest evs" and "same_key s loc"
    and "\<forall>h. etag (handles s h) = []"
    and "sorted (readings evs)" and "distinct (put_tags evs)" and "[] \<notin> set (put_tags evs)"
  shows "lease_inv cd loc evs (run cd s evs)"
  using assms(2,5-7)
proof (induction evs rule: rev_induct)
  case Nil
  show ?case using assms(3,4) by (simp add: lease_inv_def run_Nil holds_def)
next
  case (snoc e evs)
  from snoc.prems have pre: "honest evs" "sorted (readings evs)" "distinct (put_tags evs)"
    "[] \<notin> set (put_tags evs)"
    by (auto simp: honest_append readings_append sorted_append put_tags_append)
  note IH = snoc.IH [OF pre]
  obtain h opn w where e: "e = (h, opn, w)" by (cases e)
  from snoc.prems(1) have gi: "get_outcome w \<noteq> GetIgnored"
    by (simp add: honest_def e)
  show ?case
  proof (cases opn)
    case (OpTryLock len)
    show ?thesis
      using step_inv_TryLock [OF rb gi IH] snoc.prems
      by (simp add: run_snoc e OpTryLock)
  next
    case OpUnlock
    show ?thesis
      using step_inv_Unlock [OF rb gi IH]
      by (simp add: run_snoc e OpUnlock)
  qed
qed

text \<open>
  Claim C1, as the code has it. Take any sequence of \<^verbatim>\<open>TryLock\<close> and \<^verbatim>\<open>Unlock\<close> calls by
  any number of handles that start without a tag on one key, each call taking effect
  at once, with a codec that reads back the expiry it wrote, a store that ignores no
  failed read and answers every write with a new, non-empty tag, and clock readings
  that do not go back along the sequence. Then at no instant \<open>t\<close> from the last reading
  on do two different handles both hold the lock, where a handle holds the lock when
  it has acquired, has not released, and its lease has not run out (\<open>t \<le> expiresAt\<close>).
\<close>

theorem leases_exclusive:
  assumes "reads_back cd" and "honest evs" and "same_key s loc"
    and "\<forall>h. etag (handles s h) = []"
    and "sorted (readings evs)" and "distinct (put_tags evs)" and "[] \<notin> set (put_tags evs)"
    and "\<forall>r \<in> set (readings evs). r \<le> t"
    and "holds (run cd s evs) h1 t" and "holds (run cd s evs) h2 t"
  shows "h1 = h2"
proof -
  from run_inv [OF assms(1-7)] have inv: "lease_inv cd loc evs (run cd s evs)" .
  from inv assms(8,9) have m1: "matches cd (run cd s evs) loc h1"
    unfolding lease_inv_def by blast
  from inv assms(8,10) have m2: "matches cd (run cd s evs) loc h2"
    unfolding lease_inv_def by blast
  from m1 m2 have "etag (handles (run cd s evs) h1) = etag (handles (run cd s evs) h2)"
    by (auto simp: matches_def)
  moreover from assms(9) have "etag (handles (run cd s evs) h1) \<noteq> []"
    by (simp add: holds_def)
  ultimately show ?thesis
    using inv unfolding lease_inv_def by blast
qed

text \<open>An instance: after the run \<open>takeover\<close>, at the instant 20, the second handle holds and the first does not.\<close>

theorem leases_exclusive_witness:
  "holds (run json_codec (init_system contenders Map.empty) takeover) 1 20 \<and>
   \<not> holds (run json_codec (init_system contenders Map.empty) takeover) 0 20"
proof -
  let ?s = "run json_codec (init_system contenders Map.empty) takeover"
  have fresh: "\<forall>h. etag (handles (init_system contenders Map.empty) h) = []"
    by (simp add: init_system_def contenders_def alice_fields bob_fields)
  have srt: "sorted (readings takeover)"
    by (simp add: takeover_def at_time_fields)
  have tags: "distinct (put_tags takeover)" "[] \<notin> set (put_tags takeover)"
    by (simp_all add: takeover_def at_time_fields)
  have bound: "\<forall>r \<in> set (readings takeover). r \<le> 20"
    by (simp add: takeover_def at_time_fields)
  have h1: "holds ?s 1 20"
    by (simp add: run_takeover holds_def)
  have "\<not> holds ?s 0 20"
  proof
    assume h0: "holds ?s 0 20"
    from leases_exclusive [OF reads_back_json_codec honest_takeover same_key_contenders
        fresh srt tags bound h0 h1]
    show False by simp
  qed
  with h1 show ?thesis by simp
qed

text \<open>
  Claim C1 as the spec words it, without the lease, fails: after the run \<open>takeover\<close>
  both handles have acquired (tokens 1 and 2) and neither has released; both still
  carry the tag of their acquisition.
\<close>

theorem unreleased_counterexample:
  "etag (handles (run json_codec (init_system contenders Map.empty) takeover) 0) = ''v1'' \<and>
   etag (handles (run json_codec (init_system contenders Map.empty) takeover) 1) = ''v2'' \<and>
   leases (run json_codec (init_system contenders Map.empty) takeover) 0 = Some 15 \<and>
   leases (run json_codec (init_system contenders Map.empty) takeover) 1 = Some 25 \<and>
   issued (run json_codec (init_system contenders Map.empty) takeover) = [1, 2]"
  by (simp add: run_takeover)

end
